theory Spec2Isabelle
  imports Main "HOL-Library.Log_Nat"
begin

section \<open>Host-language values\<close>

text \<open>
  The program is TypeScript. Its strings are modelled as HOL strings (lists of 8-bit
  code units, the Latin-1 range of the host's code units), and the integers the encoding
  engine hands out (symbol size, cell coordinates, counters) as natural numbers: all of
  them are far below \<open>2 ^ 53\<close>, where the host's number arithmetic is exact.
\<close>

subsection \<open>White space and \<open>trim\<close>\<close>

text \<open>
  The host's white space and line terminators, as far as they lie in the Latin-1 range:
  TAB, LF, VT, FF, CR, SPACE and NBSP. The same set is what \<open>\s\<close> matches in a
  regular expression.
\<close>

definition isWhiteSpace :: "char \<Rightarrow> bool" where
  "isWhiteSpace c = (of_char c \<in> {9, 10, 11, 12, 13, 32, 160 :: nat})"

text \<open>\<open>String.prototype.trim\<close>: strip white space from both ends.\<close>

definition trim :: "string \<Rightarrow> string" where
  "trim s = rev (dropWhile isWhiteSpace (rev (dropWhile isWhiteSpace s)))"

subsection \<open>Printing a non-negative integer\<close>

text \<open>
  Template literals print a number through \<open>Number::toString\<close>; for a non-negative
  integer below \<open>10 ^ 21\<close> that is its decimal digits without leading zeros.
\<close>

definition digitChar :: "nat \<Rightarrow> char" where
  "digitChar d = ''0123456789'' ! d"

function numberToString :: "nat \<Rightarrow> string" where
  "numberToString n =
     (if n < 10 then [digitChar n] else numberToString (n div 10) @ [digitChar (n mod 10)])"
  by pat_completeness auto
termination
  by (relation "measure (\<lambda>n. n)") auto

declare numberToString.simps [simp del]

section \<open>The engine's result object\<close>

text \<open>
  The encoding engine (\<open>libs/qrCodeGenerator\<close>) is a collaborator whose code is not part
  of the sources at hand. Its result object is taken as it is read by the adapter: the
  fields \<open>version\<close>, \<open>size\<close>, \<open>mask\<close>, \<open>errorCorrectionLevel.ordinal\<close> and the
  method \<open>getModule(x, y)\<close>.
\<close>

record Ecc =
  ordinal :: int

record QrCode =
  version :: int
  size_qr :: nat
  mask_qr :: int
  errorCorrectionLevel :: Ecc
  getModule :: "nat \<Rightarrow> nat \<Rightarrow> bool"

section \<open>The adapter: counting and rendering\<close>

definition SVG_BORDER :: nat where
  "SVG_BORDER = 2"

subsection \<open>\<open>countDarkModules\<close>\<close>

text \<open>
  \<^verbatim>\<open>
  let dark = 0;
  for (let y = 0; y < qr.size; y += 1)
    for (let x = 0; x < qr.size; x += 1)
      if (qr.getModule(x, y)) dark += 1;
  return dark;
  \<close>
  Each loop is a recursive function over its counter, carrying the accumulator.
\<close>

function countDarkModules_x :: "QrCode \<Rightarrow> nat \<Rightarrow> nat \<Rightarrow> nat \<Rightarrow> nat" where
  "countDarkModules_x qr y x dark =
     (if x < size_qr qr
      then countDarkModules_x qr y (x + 1) (if getModule qr x y then dark + 1 else dark)
      else dark)"
  by pat_completeness auto
termination
  by (relation "measure (\<lambda>(qr, y, x, dark). size_qr qr - x)") auto

function countDarkModules_y :: "QrCode \<Rightarrow> nat \<Rightarrow> nat \<Rightarrow> nat" where
  "countDarkModules_y qr y dark =
     (if y < size_qr qr
      then countDarkModules_y qr (y + 1) (countDarkModules_x qr y 0 dark)
      else dark)"
  by pat_completeness auto
termination
  by (relation "measure (\<lambda>(qr, y, dark). size_qr qr - y)") auto

declare countDarkModules_x.simps [simp del] countDarkModules_y.simps [simp del]

definition countDarkModules :: "QrCode \<Rightarrow> nat" where
  "countDarkModules qr = countDarkModules_y qr 0 0"

subsection \<open>\<open>toSvg\<close>\<close>

text \<open>
  \<^verbatim>\<open>
  const viewBox = qr.size + SVG_BORDER * 2;
  let path = '';
  for (let y = 0; y < qr.size; y += 1)
    for (let x = 0; x < qr.size; x += 1)
      if (qr.getModule(x, y))
        path += `M${x + SVG_BORDER},${y + SVG_BORDER}h1v1h-1z `;
  return `<svg ... viewBox="0 0 ${viewBox} ${viewBox}" ...><rect .../><path d="${path.trim()}" .../></svg>`;
  \<close>
\<close>

definition moduleCommand :: "nat \<Rightarrow> nat \<Rightarrow> string" where
  "moduleCommand x y =
     ''M'' @ numberToString (x + SVG_BORDER) @ '','' @ numberToString (y + SVG_BORDER)
       @ ''h1v1h-1z ''"

function toSvg_x :: "QrCode \<Rightarrow> nat \<Rightarrow> nat \<Rightarrow> string \<Rightarrow> string" where
  "toSvg_x qr y x path =
     (if x < size_qr qr
      then toSvg_x qr y (x + 1) (if getModule qr x y then path @ moduleCommand x y else path)
      else path)"
  by pat_completeness auto
termination
  by (relation "measure (\<lambda>(qr, y, x, path). size_qr qr - x)") auto

function toSvg_y :: "QrCode \<Rightarrow> nat \<Rightarrow> string \<Rightarrow> string" where
  "toSvg_y qr y path =
     (if y < size_qr qr then toSvg_y qr (y + 1) (toSvg_x qr y 0 path) else path)"
  by pat_completeness auto
termination
  by (relation "measure (\<lambda>(qr, y, path). size_qr qr - y)") auto

declare toSvg_x.simps [simp del] toSvg_y.simps [simp del]

definition toSvg :: "QrCode \<Rightarrow> string" where
  \<open>toSvg qr =
     (let viewBox = size_qr qr + SVG_BORDER * 2;
          path = toSvg_y qr 0 ''''
      in ''<svg xmlns="http://www.w3.org/2000/svg" viewBox="0 0 '' @ numberToString viewBox
           @ '' '' @ numberToString viewBox
           @ ''" shape-rendering="crispEdges"><rect width="100%" height="100%" fill="#fff"/><path d="''
           @ trim path @ ''" fill="#000"/></svg>'')\<close>

section \<open>The rendering contract, in the specification's words\<close>

text \<open>
  The cells of a square grid of side \<open>n\<close> in row-major order: \<open>y\<close> outer, \<open>x\<close> inner,
  each as the pair \<open>(x, y)\<close>.
\<close>

definition rowMajor :: "nat \<Rightarrow> (nat \<times> nat) list" where
  "rowMajor n = concat (map (\<lambda>y. map (\<lambda>x. (x, y)) [0..<n]) [0..<n])"

definition darkCells :: "QrCode \<Rightarrow> (nat \<times> nat) list" where
  "darkCells qr = filter (\<lambda>(x, y). getModule qr x y) (rowMajor (size_qr qr))"

text \<open>One closed unit square at the cell's position, offset by the border of 2.\<close>

definition unitSquare :: "nat \<times> nat \<Rightarrow> string" where
  "unitSquare c = ''M'' @ numberToString (fst c + 2) @ '','' @ numberToString (snd c + 2) @ ''h1v1h-1z''"

fun spaceJoined :: "string list \<Rightarrow> string" where
  "spaceJoined [] = ''''"
| "spaceJoined [c] = c"
| "spaceJoined (c # cs) = c @ '' '' @ spaceJoined cs"

definition specDocument :: "QrCode \<Rightarrow> string" where
  \<open>specDocument qr =
     ''<svg xmlns="http://www.w3.org/2000/svg" viewBox="0 0 '' @ numberToString (size_qr qr + 4)
       @ '' '' @ numberToString (size_qr qr + 4)
       @ ''" shape-rendering="crispEdges"><rect width="100%" height="100%" fill="#fff"/><path d="''
       @ spaceJoined (map unitSquare (darkCells qr)) @ ''" fill="#000"/></svg>''\<close>


section \<open>Numbers of the host language\<close>

text \<open>
  A host number is an IEEE double. The finite ones are modelled by the rational they
  denote (every double is a dyadic rational; the two zeros are identified, which no
  operation used here tells apart), next to the three special values. Truncation,
  comparison, maximum and minimum are exact on doubles; where the source rounds (reading
  a decimal literal, multiplying) the model rounds with \<open>toDouble\<close>.
\<close>

datatype jsnum = NaN | NegInfinity | Num rat | PosInfinity

fun isFinite :: "jsnum \<Rightarrow> bool" where
  "isFinite (Num q) = True"
| "isFinite _ = False"

text \<open>The relational operator \<open><\<close>: false as soon as one side is NaN.\<close>

fun js_less :: "jsnum \<Rightarrow> jsnum \<Rightarrow> bool" where
  "js_less NaN b = False"
| "js_less a NaN = False"
| "js_less (Num a) (Num b) = (a < b)"
| "js_less NegInfinity NegInfinity = False"
| "js_less NegInfinity b = True"
| "js_less a NegInfinity = False"
| "js_less PosInfinity b = False"
| "js_less a PosInfinity = True"

definition js_greater :: "jsnum \<Rightarrow> jsnum \<Rightarrow> bool" where
  "js_greater a b = js_less b a"

definition Math_max :: "jsnum \<Rightarrow> jsnum \<Rightarrow> jsnum" where
  "Math_max a b = (if a = NaN \<or> b = NaN then NaN else if js_less a b then b else a)"

definition Math_min :: "jsnum \<Rightarrow> jsnum \<Rightarrow> jsnum" where
  "Math_min a b = (if a = NaN \<or> b = NaN then NaN else if js_less b a then b else a)"

text \<open>\<open>Math.trunc\<close> drops the fraction, towards zero.\<close>

fun Math_trunc :: "jsnum \<Rightarrow> jsnum" where
  "Math_trunc (Num q) = Num (of_int (if 0 \<le> q then \<lfloor>q\<rfloor> else \<lceil>q\<rceil>))"
| "Math_trunc a = a"

text \<open>\<open>Math.round\<close>: the nearest integer, a tie going up.\<close>

fun Math_round :: "jsnum \<Rightarrow> jsnum" where
  "Math_round (Num q) = Num (of_int \<lfloor>q + 1 / 2\<rfloor>)"
| "Math_round a = a"

text \<open>\<open>a || b\<close> on numbers: \<open>a\<close> unless it is falsy, that is zero or NaN.\<close>

fun truthy :: "jsnum \<Rightarrow> bool" where
  "truthy NaN = False"
| "truthy (Num q) = (q \<noteq> 0)"
| "truthy _ = True"

definition js_or :: "jsnum \<Rightarrow> jsnum \<Rightarrow> jsnum" where
  "js_or a b = (if truthy a then a else b)"

subsection \<open>Rounding to a double\<close>

definition pow2 :: "int \<Rightarrow> rat" where
  "pow2 e = (if 0 \<le> e then 2 ^ nat e else 1 / 2 ^ nat (- e))"

text \<open>For positive \<open>q\<close>, the exponent \<open>e\<close> with \<open>2 ^ e \<le> q < 2 ^ (e + 1)\<close>.\<close>

definition floorLog2 :: "rat \<Rightarrow> int" where
  "floorLog2 q =
     (if 1 \<le> q then int (floorlog 2 (nat \<lfloor>q\<rfloor>)) - 1
      else - int (floorlog 2 (nat (\<lceil>1 / q\<rceil> - 1))))"

definition roundHalfEven :: "rat \<Rightarrow> int" where
  "roundHalfEven q =
     (let f = \<lfloor>q\<rfloor>; r = q - of_int f
      in if r < 1 / 2 then f else if 1 / 2 < r then f + 1 else if even f then f else f + 1)"

text \<open>
  Round to nearest, ties to even, with 53 significant bits, gradual underflow below
  \<open>2 ^ -1022\<close> and overflow to an infinity from \<open>2 ^ 1024\<close> on.
\<close>

definition toDouble :: "rat \<Rightarrow> jsnum" where
  "toDouble q =
     (if q = 0 then Num 0
      else let a = \<bar>q\<bar>;
               e = max (floorLog2 a) (- 1022);
               ulp = pow2 (e - 52);
               r = of_int (roundHalfEven (a / ulp)) * ulp
           in if pow2 1024 \<le> r then (if q < 0 then NegInfinity else PosInfinity)
              else Num (if q < 0 then - r else r))"

fun js_sign :: "jsnum \<Rightarrow> int" where
  "js_sign (Num q) = (if q < 0 then - 1 else if q = 0 then 0 else 1)"
| "js_sign NegInfinity = - 1"
| "js_sign PosInfinity = 1"
| "js_sign NaN = 0"

text \<open>The operator \<open>*\<close>.\<close>

fun js_times :: "jsnum \<Rightarrow> jsnum \<Rightarrow> jsnum" where
  "js_times NaN b = NaN"
| "js_times a NaN = NaN"
| "js_times (Num a) (Num b) = toDouble (a * b)"
| "js_times a b =
     (let s = js_sign a * js_sign b
      in if s = 0 then NaN else if 0 < s then PosInfinity else NegInfinity)"

subsection \<open>Reading a decimal literal\<close>

text \<open>
  \<open>Number(s)\<close> for the strings the size pattern can capture: digits and dots only.
  Such a string is a decimal literal when it has at most one dot and at least one digit
  (\<open>5\<close>, \<open>5.\<close>, \<open>.5\<close>, \<open>5.25\<close>); its value is rounded to a double. Anything else
  (\<open>.\<close>, \<open>1.2.3\<close>) is NaN. Signs, exponents, radix prefixes and surrounding white
  space cannot occur in a capture and are not modelled.
\<close>

definition isDigit :: "char \<Rightarrow> bool" where
  "isDigit c = (c \<in> set ''0123456789'')"

definition digitValue :: "char \<Rightarrow> nat" where
  "digitValue c = of_char c - 48"

definition decimalValue :: "string \<Rightarrow> nat" where
  "decimalValue ds = foldl (\<lambda>n c. 10 * n + digitValue c) 0 ds"

definition Number_of :: "string \<Rightarrow> jsnum" where
  "Number_of s =
     (let digits_before = takeWhile isDigit s; rest = dropWhile isDigit s
      in case rest of
           [] \<Rightarrow> if digits_before = [] then Num 0 else toDouble (of_nat (decimalValue digits_before))
         | c # digits_after \<Rightarrow>
             if c = CHR ''.'' \<and> list_all isDigit digits_after \<and> (digits_before \<noteq> [] \<or> digits_after \<noteq> [])
             then toDouble (of_nat (decimalValue digits_before)
                            + of_nat (decimalValue digits_after) / 10 ^ length digits_after)
             else NaN)"


section \<open>Regular expressions\<close>

text \<open>
  The size pattern is a sequence of single characters, one greedy starred class and two
  capturing groups of a greedy plussed class. The matcher below is the backtracking
  matcher of the host for that fragment: a quantified class first takes as many
  characters as it can and gives them back one at a time while the rest of the pattern
  fails. \<open>matchHere\<close> yields the captures and the input left after the match.
\<close>

datatype node = Single "char \<Rightarrow> bool" | Many "char \<Rightarrow> bool" | Group_many1 "char \<Rightarrow> bool"

function (sequential) matchHere :: "node list \<Rightarrow> string \<Rightarrow> (string list \<times> string) option"
  and backtrack :: "bool \<Rightarrow> node list \<Rightarrow> string \<Rightarrow> nat \<Rightarrow> nat \<Rightarrow> (string list \<times> string) option"
where
  "matchHere [] s = Some ([], s)"
| "matchHere (Single p # r) s =
     (case s of [] \<Rightarrow> None | c # cs \<Rightarrow> if p c then matchHere r cs else None)"
| "matchHere (Many p # r) s = backtrack False r s (length (takeWhile p s)) 0"
| "matchHere (Group_many1 p # r) s = backtrack True r s (length (takeWhile p s)) 1"
| "backtrack capture r s k least =
     (if k < least then None
      else case matchHere r (drop k s) of
             Some (groups, rest) \<Rightarrow> Some (if capture then take k s # groups else groups, rest)
           | None \<Rightarrow> if k = 0 then None else backtrack capture r s (k - 1) least)"
  by pat_completeness auto
termination
  by (relation "measures [\<lambda>a. case a of Inl (r, s) \<Rightarrow> 2 * length r
                                     | Inr (c, r, s, k, l) \<Rightarrow> 2 * length r + 1,
                           \<lambda>a. case a of Inl (r, s) \<Rightarrow> 0 | Inr (c, r, s, k, l) \<Rightarrow> k]")
    auto

declare backtrack.simps [simp del]

text \<open>
  \<open>String.prototype.match\<close> with a pattern that is not global: the leftmost start at
  which the pattern matches; the result array holds the matched text and then the groups.
\<close>

fun js_match :: "node list \<Rightarrow> string \<Rightarrow> string list option" where
  "js_match re s =
     (case matchHere re s of
        Some (groups, rest) \<Rightarrow> Some (take (length s - length rest) s # groups)
      | None \<Rightarrow> (case s of [] \<Rightarrow> None | c # cs \<Rightarrow> js_match re cs))"

declare js_match.simps [simp del]

text \<open>
  With the flag \<open>i\<close> a pattern character matches a character of the input when their
  upper-case forms agree; for the ASCII characters of the pattern these are the character
  itself and its other case.
\<close>

definition asciiUpper :: "char \<Rightarrow> char" where
  "asciiUpper c =
     (case map_of (zip ''abcdefghijklmnopqrstuvwxyz'' ''ABCDEFGHIJKLMNOPQRSTUVWXYZ'') c of
        Some u \<Rightarrow> u | None \<Rightarrow> c)"

definition ignoreCase :: "char \<Rightarrow> char \<Rightarrow> bool" where
  "ignoreCase c x = (asciiUpper x = asciiUpper c)"

definition digitOrDot :: "char \<Rightarrow> bool" where
  "digitOrDot c = (isDigit c \<or> c = CHR ''.'')"

section \<open>The raster exporter\<close>

definition PNG_SCALE :: jsnum where
  "PNG_SCALE = Num 16"

definition DEFAULT_PNG_SIZE :: jsnum where
  "DEFAULT_PNG_SIZE = Num 512"

text \<open>\<^verbatim>\<open>/viewBox="[^"]*\s([\d.]+)\s([\d.]+)"/i\<close>\<close>

definition viewBoxPattern :: "node list" where
  \<open>viewBoxPattern =
     map (\<lambda>c. Single (ignoreCase c)) ''viewBox="''
     @ [Many (\<lambda>c. c \<noteq> CHR ''"''), Single isWhiteSpace, Group_many1 digitOrDot,
        Single isWhiteSpace, Group_many1 digitOrDot, Single (ignoreCase CHR ''"'')]\<close>

text \<open>
  \<^verbatim>\<open>
  const match = svg.match(/viewBox="[^"]*\s([\d.]+)\s([\d.]+)"/i);
  if (!match) return DEFAULT_PNG_SIZE;
  const width = Number(match[1]);
  const height = Number(match[2]);
  const size = Math.max(width, height);
  return Number.isFinite(size) && size > 0 ? size : DEFAULT_PNG_SIZE;
  \<close>
\<close>

definition getSvgSize :: "string \<Rightarrow> jsnum" where
  "getSvgSize svg =
     (case js_match viewBoxPattern svg of
        None \<Rightarrow> DEFAULT_PNG_SIZE
      | Some match \<Rightarrow>
          let width = Number_of (match ! 1);
              height = Number_of (match ! 2);
              size = Math_max width height
          in if isFinite size \<and> js_greater size (Num 0) then size else DEFAULT_PNG_SIZE)"

text \<open>The side of the canvas: \<^verbatim>\<open>Math.round(getSvgSize(svg) * PNG_SCALE)\<close>.\<close>

definition canvasSize :: "string \<Rightarrow> jsnum" where
  "canvasSize svg = Math_round (js_times (getSvgSize svg) PNG_SCALE)"

subsection \<open>The browser, as far as the export touches it\<close>

text \<open>
  The export acts on the browser: it registers an object URL for the document, has the
  browser decode the image, draws on a canvas, starts a download and releases the URL.
  The browser is a state that is passed along: the live object URLs, the next fresh one,
  and the log of what happened. Whether the document decodes and whether a drawing
  context is to be had is the browser's business and comes in as \<open>environment\<close>.
\<close>

datatype event =
    CreateObjectURL nat string
  | RevokeObjectURL nat
  | Download string jsnum jsnum

record browser =
  objectUrls :: "nat list"
  nextUrl :: nat
  events :: "event list"

record environment =
  imageDecodes :: "string \<Rightarrow> bool"
  contextAvailable :: bool

datatype export_error = ImageDecodeFailed | RenderUnavailable

definition createObjectURL :: "string \<Rightarrow> browser \<Rightarrow> nat \<times> browser" where
  "createObjectURL blob b =
     (nextUrl b,
      b\<lparr>objectUrls := nextUrl b # objectUrls b, nextUrl := nextUrl b + 1,
        events := events b @ [CreateObjectURL (nextUrl b) blob]\<rparr>)"

definition revokeObjectURL :: "nat \<Rightarrow> browser \<Rightarrow> browser" where
  "revokeObjectURL url b =
     b\<lparr>objectUrls := removeAll url (objectUrls b), events := events b @ [RevokeObjectURL url]\<rparr>"

text \<open>
  The body of the \<open>try\<close>: the awaited image either loads or the promise is rejected
  with \<open>Unable to render QR image\<close>; a missing context throws
  \<open>Unable to create image canvas\<close>; otherwise the canvas is drawn and the link clicked.
  The browser settles the load of an image one way or the other; a load that never
  settles would leave the call suspended for good and has no place in this model.
\<close>

definition saveSvgAsPng_try ::
    "environment \<Rightarrow> string \<Rightarrow> string \<Rightarrow> nat \<Rightarrow> browser \<Rightarrow> (export_error + unit) \<times> browser" where
  "saveSvgAsPng_try env svg filename svgUrl b =
     (if \<not> imageDecodes env svg then (Inl ImageDecodeFailed, b)
      else let size = canvasSize svg
           in if \<not> contextAvailable env then (Inl RenderUnavailable, b)
              else (Inr (), b\<lparr>events := events b @ [Download filename size size]\<rparr>))"

text \<open>\<open>try { ... } finally { URL.revokeObjectURL(svgUrl) }\<close>: the release runs on every way out.\<close>

definition saveSvgAsPng ::
    "environment \<Rightarrow> string \<Rightarrow> string \<Rightarrow> browser \<Rightarrow> (export_error + unit) \<times> browser" where
  "saveSvgAsPng env svg filename b =
     (let (svgUrl, b1) = createObjectURL svg b;
          (result, b2) = saveSvgAsPng_try env svg filename svgUrl b1
      in (result, revokeObjectURL svgUrl b2))"


section \<open>The adapter: options, segments and the pipeline\<close>

datatype QrMode = Auto | Numeric | Alphanumeric | Byte

datatype QrEcc = LOW | MEDIUM | QUARTILE | HIGH

text \<open>\<open>'auto' | 0 | 1 | ... | 7\<close>\<close>

datatype QrMask = Mask_auto | Mask int

datatype QrModeUsed = Used_none | Used_numeric | Used_alphanumeric | Used_byte | Used_mixed

record GenerateQrOptions =
  text_in :: string
  mode :: QrMode
  ecl :: QrEcc
  minVersion :: jsnum
  maxVersion :: jsnum
  mask :: QrMask
  boostEcl :: bool

record Metadata =
  requestedMode :: QrMode
  usedMode :: QrModeUsed
  requestedEcl :: QrEcc
  actualEcl :: "QrEcc option"
  version_meta :: int
  size_meta :: nat
  mask_meta :: int
  segmentCount :: nat
  darkModules :: nat

record GenerateQrResult =
  svg :: string
  metadata :: Metadata

subsection \<open>The engine, as the adapter sees it\<close>

text \<open>
  A segment is an object of the engine; the adapter reads \<open>segment.mode.modeBits\<close> and
  nothing else, so whatever else a segment holds is kept as an opaque \<open>payload\<close>. The
  engine's functions the adapter calls are parameters of the model, gathered in a record.
  Each may throw; what it throws is a value of the engine's own error type \<open>'e\<close>.
\<close>

record SegmentMode =
  modeBits :: int

record 'p QrSegment =
  mode_seg :: SegmentMode
  payload :: 'p

record ('p, 'e) Engine =
  makeSegments :: "string \<Rightarrow> 'e + 'p QrSegment list"
  makeNumeric :: "string \<Rightarrow> 'e + 'p QrSegment"
  makeAlphanumeric :: "string \<Rightarrow> 'e + 'p QrSegment"
  makeBytes :: "nat list \<Rightarrow> 'e + 'p QrSegment"
  encodeSegments ::
    "'p QrSegment list \<Rightarrow> Ecc \<Rightarrow> jsnum \<Rightarrow> jsnum \<Rightarrow> int \<Rightarrow> bool \<Rightarrow> 'e + QrCode"
  Ecc_LOW :: Ecc
  Ecc_MEDIUM :: Ecc
  Ecc_QUARTILE :: Ecc
  Ecc_HIGH :: Ecc

text \<open>
  The errors of the pipeline: the adapter's own \<open>RangeError\<close>
  (\<open>Minimum version cannot be greater than maximum version\<close>), and whatever the engine
  threw, passed on unchanged.
\<close>

datatype 'e error = InvalidRange | EngineError 'e

subsection \<open>Tables\<close>

definition ECL_MAP :: "('p, 'e) Engine \<Rightarrow> QrEcc \<Rightarrow> Ecc" where
  "ECL_MAP E l =
     (case l of LOW \<Rightarrow> Ecc_LOW E | MEDIUM \<Rightarrow> Ecc_MEDIUM E
      | QUARTILE \<Rightarrow> Ecc_QUARTILE E | HIGH \<Rightarrow> Ecc_HIGH E)"

definition ECL_BY_ORDINAL :: "int \<rightharpoonup> QrEcc" where
  "ECL_BY_ORDINAL = [0 \<mapsto> LOW, 1 \<mapsto> MEDIUM, 2 \<mapsto> QUARTILE, 3 \<mapsto> HIGH]"

definition MODE_BY_BITS :: "int \<rightharpoonup> QrModeUsed" where
  "MODE_BY_BITS = [1 \<mapsto> Used_numeric, 2 \<mapsto> Used_alphanumeric, 4 \<mapsto> Used_byte]"

subsection \<open>\<open>clampVersion\<close>\<close>

text \<open>\<^verbatim>\<open>Math.min(40, Math.max(1, Math.trunc(value) || 1))\<close>\<close>

definition clampVersion :: "jsnum \<Rightarrow> jsnum" where
  "clampVersion v = Math_min (Num 40) (Math_max (Num 1) (js_or (Math_trunc v) (Num 1)))"

subsection \<open>\<open>buildSegments\<close>\<close>

text \<open>
  \<open>new TextEncoder().encode(text)\<close>: UTF-8. A code unit below 128 is one byte, the
  others of the Latin-1 range are two.
\<close>

definition utf8 :: "string \<Rightarrow> nat list" where
  "utf8 s =
     concat (map (\<lambda>c. let n = of_char c
                      in if n < 128 then [n] else [192 + n div 64, 128 + n mod 64]) s)"

text \<open>An engine call inside an expression: its exception leaves the expression.\<close>

definition single :: "'e + 'a \<Rightarrow> 'e + 'a list" where
  "single r = (case r of Inl e \<Rightarrow> Inl e | Inr x \<Rightarrow> Inr [x])"

definition buildSegments :: "('p, 'e) Engine \<Rightarrow> string \<Rightarrow> QrMode \<Rightarrow> 'e + 'p QrSegment list" where
  "buildSegments E t m =
     (if m = Auto then makeSegments E t
      else if m = Numeric then single (makeNumeric E t)
      else if m = Alphanumeric then single (makeAlphanumeric E t)
      else single (makeBytes E (utf8 t)))"

subsection \<open>\<open>detectUsedMode\<close>\<close>

text \<open>
  The \<open>Set\<close> of used modes keeps its members in insertion order; it is a list without
  repetitions. \<open>MODE_BY_BITS[...] ?? 'mixed'\<close> reads the table with \<open>mixed\<close> for a
  missing key.
\<close>

definition set_add :: "'a \<Rightarrow> 'a list \<Rightarrow> 'a list" where
  "set_add x used = (if x \<in> set used then used else used @ [x])"

definition segmentModeUsed :: "'p QrSegment \<Rightarrow> QrModeUsed" where
  "segmentModeUsed segment =
     (case MODE_BY_BITS (modeBits (mode_seg segment)) of Some m \<Rightarrow> m | None \<Rightarrow> Used_mixed)"

fun detectUsedMode_loop :: "'p QrSegment list \<Rightarrow> QrModeUsed list \<Rightarrow> QrModeUsed list" where
  "detectUsedMode_loop [] used = used"
| "detectUsedMode_loop (segment # segments) used =
     detectUsedMode_loop segments (set_add (segmentModeUsed segment) used)"

definition detectUsedMode :: "'p QrSegment list \<Rightarrow> QrModeUsed" where
  "detectUsedMode segments =
     (if length segments = 0 then Used_none
      else let used = detectUsedMode_loop segments []
           in if length used = 1 then hd used else Used_mixed)"

subsection \<open>\<open>generateQrCode\<close>\<close>

definition generateQrCode :: "('p, 'e) Engine \<Rightarrow> GenerateQrOptions \<Rightarrow> 'e error + GenerateQrResult" where
  "generateQrCode E options =
     (let minV = clampVersion (minVersion options);
          maxV = clampVersion (maxVersion options)
      in if js_greater minV maxV then Inl InvalidRange
         else case buildSegments E (text_in options) (mode options) of
                Inl e \<Rightarrow> Inl (EngineError e)
              | Inr segments \<Rightarrow>
                  (case encodeSegments E segments (ECL_MAP E (ecl options)) minV maxV
                          (case mask options of Mask_auto \<Rightarrow> - 1 | Mask k \<Rightarrow> k)
                          (boostEcl options) of
                     Inl e \<Rightarrow> Inl (EngineError e)
                   | Inr qr \<Rightarrow>
                       Inr \<lparr>svg = toSvg qr,
                            metadata =
                              \<lparr>requestedMode = mode options,
                               usedMode = detectUsedMode segments,
                               requestedEcl = ecl options,
                               actualEcl = ECL_BY_ORDINAL (ordinal (errorCorrectionLevel qr)),
                               version_meta = version qr,
                               size_meta = size_qr qr,
                               mask_meta = mask_qr qr,
                               segmentCount = length segments,
                               darkModules = countDarkModules qr\<rparr>\<rparr>))"

section \<open>Notions the statements below are phrased in\<close>

text \<open>Row-major order on cells \<open>(x, y)\<close>: top to bottom, and left to right in a row.\<close>

definition rowMajorBefore :: "nat \<times> nat \<Rightarrow> nat \<times> nat \<Rightarrow> bool" where
  "rowMajorBefore c d = (snd c < snd d \<or> (snd c = snd d \<and> fst c < fst d))"

text \<open>
  The subpaths of a document: each begins with the one move command \<open>M\<close>, a letter that
  occurs nowhere else in what the renderer writes.
\<close>

definition subpathCount :: "string \<Rightarrow> nat" where
  "subpathCount doc = length (filter (\<lambda>c. c = CHR ''M'') doc)"

text \<open>
  Version normalisation as the specification words it: truncate, take 1 for a value that
  is not positive or not finite, then clamp into \<open>[1, 40]\<close>.
\<close>

definition clampVersion_spec :: "jsnum \<Rightarrow> jsnum" where
  "clampVersion_spec v =
     (let t = Math_trunc v;
          d = (if isFinite t \<and> js_less (Num 0) t then t else Num 1)
      in Math_min (Num 40) (Math_max (Num 1) d))"

section \<open>An engine to run the pipeline on\<close>

text \<open>
  Modelled from the spec: the encoding engine (\<open>libs/qrCodeGenerator\<close>), which is not
  among the sources. \<open>sampleEngine\<close> follows sections 4.2 and 6 of the
  specification for the segment constructors: a numeric segment takes digits only, an
  alphanumeric one digits, upper-case letters, space and \<open>$%*+-./:\<close>, a byte segment
  anything; the automatic segmenter returns no segment for the empty text and otherwise
  one segment of the narrowest mode that takes the text. Its encoder does not build a real
  symbol: it returns a fixed 3 by 3 grid with a dark diagonal, at the requested level and
  mask. It serves to run the pipeline at concrete inputs; the theorems hold for every
  engine.
\<close>

datatype engine_error = UnsupportedCharacters | CapacityExceeded

definition segmentOf :: "int \<Rightarrow> nat list \<Rightarrow> nat list QrSegment" where
  "segmentOf bits bytes = \<lparr>mode_seg = \<lparr>modeBits = bits\<rparr>, payload = bytes\<rparr>"

definition isAlphanumericChar :: "char \<Rightarrow> bool" where
  "isAlphanumericChar c = (c \<in> set ''0123456789ABCDEFGHIJKLMNOPQRSTUVWXYZ $%*+-./:'')"

definition sampleSymbol :: "Ecc \<Rightarrow> int \<Rightarrow> QrCode" where
  "sampleSymbol level m =
     \<lparr>version = 1, size_qr = 3, mask_qr = (if m < 0 then 0 else m),
      errorCorrectionLevel = level, getModule = (\<lambda>x y. x = y)\<rparr>"

definition sampleEngine :: "(nat list, engine_error) Engine" where
  "sampleEngine =
     \<lparr>makeSegments = (\<lambda>t. Inr (if t = [] then []
                               else if list_all isDigit t then [segmentOf 1 (utf8 t)]
                               else if list_all isAlphanumericChar t then [segmentOf 2 (utf8 t)]
                               else [segmentOf 4 (utf8 t)])),
      makeNumeric = (\<lambda>t. if list_all isDigit t then Inr (segmentOf 1 (utf8 t))
                          else Inl UnsupportedCharacters),
      makeAlphanumeric = (\<lambda>t. if list_all isAlphanumericChar t then Inr (segmentOf 2 (utf8 t))
                               else Inl UnsupportedCharacters),
      makeBytes = (\<lambda>bytes. Inr (segmentOf 4 bytes)),
      encodeSegments = (\<lambda>segments level minV maxV m boost. Inr (sampleSymbol level m)),
      Ecc_LOW = \<lparr>ordinal = 0\<rparr>, Ecc_MEDIUM = \<lparr>ordinal = 1\<rparr>,
      Ecc_QUARTILE = \<lparr>ordinal = 2\<rparr>, Ecc_HIGH = \<lparr>ordinal = 3\<rparr>\<rparr>"

definition sampleOptions :: "string \<Rightarrow> QrMode \<Rightarrow> GenerateQrOptions" where
  "sampleOptions t m =
     \<lparr>text_in = t, mode = m, ecl = MEDIUM, minVersion = Num 1, maxVersion = Num 40,
      mask = Mask_auto, boostEcl = True\<rparr>"

section \<open>The exporter's contract, in the specification's words\<close>

text \<open>
  A token of the size pattern: a non-empty run of digits and dots. The input \<open>s\<close>
  begins with a \<open>viewBox\<close> attribute (in any letter case) whose quoted value ends in
  white space, a token, white space and a token. The declared dimensions of a document
  are the tokens of the first place where that holds; a document may have no such place.
\<close>

definition isToken :: "string \<Rightarrow> bool" where
  "isToken t = (t \<noteq> [] \<and> list_all digitOrDot t)"

definition viewBoxHere :: "string \<Rightarrow> string \<Rightarrow> string \<Rightarrow> bool" where
  \<open>viewBoxHere s t1 t2 =
     (\<exists>name junk a b rest.
        s = name @ junk @ a # t1 @ b # t2 @ CHR ''"'' # rest
        \<and> map asciiUpper name = ''VIEWBOX="''
        \<and> CHR ''"'' \<notin> set junk
        \<and> isWhiteSpace a \<and> isWhiteSpace b \<and> isToken t1 \<and> isToken t2)\<close>

definition firstViewBox :: "string \<Rightarrow> string \<Rightarrow> string \<Rightarrow> bool" where
  "firstViewBox doc t1 t2 =
     (\<exists>i. viewBoxHere (drop i doc) t1 t2
          \<and> (\<forall>j u1 u2. j < i \<longrightarrow> \<not> viewBoxHere (drop j doc) u1 u2))"

definition noViewBox :: "string \<Rightarrow> bool" where
  "noViewBox doc = (\<forall>i u1 u2. \<not> viewBoxHere (drop i doc) u1 u2)"

text \<open>
  How an export ends: with \<open>ImageDecodeFailed\<close> when the browser cannot decode the
  document, with \<open>RenderUnavailable\<close> when no drawing context is to be had, and well
  otherwise.
\<close>

definition exportOutcome :: "environment \<Rightarrow> string \<Rightarrow> export_error + unit" where
  "exportOutcome env doc =
     (if \<not> imageDecodes env doc then Inl ImageDecodeFailed
      else if \<not> contextAvailable env then Inl RenderUnavailable else Inr ())"

text \<open>
  A document to run the exporter on: what \<open>toSvg\<close> writes for a version-1 symbol of 21
  by 21 modules none of which is dark.
\<close>

definition sampleDocument :: string where
  \<open>sampleDocument = ''<svg xmlns="http://www.w3.org/2000/svg" viewBox="0 0 25 25" shape-rendering="crispEdges"><rect width="100%" height="100%" fill="#fff"/><path d="" fill="#000"/></svg>''\<close>

section \<open>The pipeline, call by call\<close>

text \<open>
  To speak of two calls of \<open>generateQrCode\<close>, the engine is taken here as it shows itself
  call by call: each of its functions is a relation between the arguments and what one
  call may return, so that a second call with the same arguments is free to return
  something else. A run of \<open>buildSegments\<close> or of \<open>generateQrCode\<close> is a derivation
  that follows the source statement by statement, with one call of the engine where the
  source has one. \<open>levels\<close> is the table \<open>ECL_MAP\<close>, which holds constants of the
  engine.
\<close>

record ('p, 'e) EngineCalls =
  makeSegments_call :: "string \<Rightarrow> ('e + 'p QrSegment list) \<Rightarrow> bool"
  makeNumeric_call :: "string \<Rightarrow> ('e + 'p QrSegment) \<Rightarrow> bool"
  makeAlphanumeric_call :: "string \<Rightarrow> ('e + 'p QrSegment) \<Rightarrow> bool"
  makeBytes_call :: "nat list \<Rightarrow> ('e + 'p QrSegment) \<Rightarrow> bool"
  encodeSegments_call ::
    "'p QrSegment list \<Rightarrow> Ecc \<Rightarrow> jsnum \<Rightarrow> jsnum \<Rightarrow> int \<Rightarrow> bool \<Rightarrow> ('e + QrCode) \<Rightarrow> bool"
  levels :: "QrEcc \<Rightarrow> Ecc"

inductive buildSegments_run ::
    "('p, 'e) EngineCalls \<Rightarrow> string \<Rightarrow> QrMode \<Rightarrow> ('e + 'p QrSegment list) \<Rightarrow> bool"
  for R :: "('p, 'e) EngineCalls" where
  run_auto: "makeSegments_call R t out \<Longrightarrow> buildSegments_run R t Auto out"
| run_numeric: "makeNumeric_call R t out \<Longrightarrow> buildSegments_run R t Numeric (single out)"
| run_alphanumeric:
    "makeAlphanumeric_call R t out \<Longrightarrow> buildSegments_run R t Alphanumeric (single out)"
| run_byte: "makeBytes_call R (utf8 t) out \<Longrightarrow> buildSegments_run R t Byte (single out)"

inductive generateQrCode_run ::
    "('p, 'e) EngineCalls \<Rightarrow> GenerateQrOptions \<Rightarrow> ('e error + GenerateQrResult) \<Rightarrow> bool"
  for R :: "('p, 'e) EngineCalls" where
  run_range:
    "js_greater (clampVersion (minVersion options)) (clampVersion (maxVersion options)) \<Longrightarrow>
       generateQrCode_run R options (Inl InvalidRange)"
| run_segments_fail:
    "\<not> js_greater (clampVersion (minVersion options)) (clampVersion (maxVersion options)) \<Longrightarrow>
     buildSegments_run R (text_in options) (mode options) (Inl e) \<Longrightarrow>
       generateQrCode_run R options (Inl (EngineError e))"
| run_encode_fail:
    "\<not> js_greater (clampVersion (minVersion options)) (clampVersion (maxVersion options)) \<Longrightarrow>
     buildSegments_run R (text_in options) (mode options) (Inr segments) \<Longrightarrow>
     encodeSegments_call R segments (levels R (ecl options))
        (clampVersion (minVersion options)) (clampVersion (maxVersion options))
        (case mask options of Mask_auto \<Rightarrow> - 1 | Mask k \<Rightarrow> k) (boostEcl options) (Inl e) \<Longrightarrow>
       generateQrCode_run R options (Inl (EngineError e))"
| run_encoded:
    "\<not> js_greater (clampVersion (minVersion options)) (clampVersion (maxVersion options)) \<Longrightarrow>
     buildSegments_run R (text_in options) (mode options) (Inr segments) \<Longrightarrow>
     encodeSegments_call R segments (levels R (ecl options))
        (clampVersion (minVersion options)) (clampVersion (maxVersion options))
        (case mask options of Mask_auto \<Rightarrow> - 1 | Mask k \<Rightarrow> k) (boostEcl options) (Inr qr) \<Longrightarrow>
       generateQrCode_run R options
         (Inr \<lparr>svg = toSvg qr,
              metadata =
                \<lparr>requestedMode = mode options,
                 usedMode = detectUsedMode segments,
                 requestedEcl = ecl options,
                 actualEcl = ECL_BY_ORDINAL (ordinal (errorCorrectionLevel qr)),
                 version_meta = version qr,
                 size_meta = size_qr qr,
                 mask_meta = mask_qr qr,
                 segmentCount = length segments,
                 darkModules = countDarkModules qr\<rparr>\<rparr>)"

text \<open>
  Two result objects that agree in all the adapter reads of them: version, size, mask,
  the ordinal of the level, and every cell inside the grid. An engine is repeatable when a
  call with the same arguments returns the same again: the same segments or error from
  the constructors, and from the encoder the same error or result objects that agree in
  this sense (each call builds an object of its own).
\<close>

definition sameSymbol :: "QrCode \<Rightarrow> QrCode \<Rightarrow> bool" where
  "sameSymbol q q' =
     (version q = version q' \<and> size_qr q = size_qr q' \<and> mask_qr q = mask_qr q'
      \<and> ordinal (errorCorrectionLevel q) = ordinal (errorCorrectionLevel q')
      \<and> (\<forall>x y. x < size_qr q \<and> y < size_qr q \<longrightarrow> getModule q x y = getModule q' x y))"

fun sameEncoding :: "'e + QrCode \<Rightarrow> 'e + QrCode \<Rightarrow> bool" where
  "sameEncoding (Inl e) (Inl e') = (e = e')"
| "sameEncoding (Inr q) (Inr q') = sameSymbol q q'"
| "sameEncoding a b = False"

definition engineRepeatable :: "('p, 'e) EngineCalls \<Rightarrow> bool" where
  "engineRepeatable R =
     ((\<forall>t a b. makeSegments_call R t a \<and> makeSegments_call R t b \<longrightarrow> a = b)
      \<and> (\<forall>t a b. makeNumeric_call R t a \<and> makeNumeric_call R t b \<longrightarrow> a = b)
      \<and> (\<forall>t a b. makeAlphanumeric_call R t a \<and> makeAlphanumeric_call R t b \<longrightarrow> a = b)
      \<and> (\<forall>t a b. makeBytes_call R t a \<and> makeBytes_call R t b \<longrightarrow> a = b)
      \<and> (\<forall>ss l u v k bo a b.
            encodeSegments_call R ss l u v k bo a \<and> encodeSegments_call R ss l u v k bo b
              \<longrightarrow> sameEncoding a b))"

text \<open>The engine whose calls return what the functions of \<open>E\<close> return.\<close>

definition callsOf :: "('p, 'e) Engine \<Rightarrow> ('p, 'e) EngineCalls" where
  "callsOf E =
     \<lparr>makeSegments_call = (\<lambda>t out. out = makeSegments E t),
      makeNumeric_call = (\<lambda>t out. out = makeNumeric E t),
      makeAlphanumeric_call = (\<lambda>t out. out = makeAlphanumeric E t),
      makeBytes_call = (\<lambda>bytes out. out = makeBytes E bytes),
      encodeSegments_call = (\<lambda>ss l u v k bo out. out = encodeSegments E ss l u v k bo),
      levels = ECL_MAP E\<rparr>"

text \<open>
  Modelled from the spec: the encoding engine again (\<open>libs/qrCodeGenerator\<close>, not among
  the sources), this time with an encoder that may hand out, call by call, any result
  object that agrees with \<open>sampleSymbol\<close> in what the adapter reads; \<open>otherSymbol\<close> is
  such an object, different from \<open>sampleSymbol\<close> outside the grid.
\<close>

definition looseEngine :: "(nat list, engine_error) EngineCalls" where
  "looseEngine =
     (callsOf sampleEngine)
       \<lparr>encodeSegments_call :=
          (\<lambda>segments level minV maxV m boost out.
             \<exists>q. out = Inr q \<and> sameSymbol q (sampleSymbol level m))\<rparr>"

definition otherSymbol :: QrCode where
  "otherSymbol =
     \<lparr>version = 1, size_qr = 3, mask_qr = 0, errorCorrectionLevel = \<lparr>ordinal = 1\<rparr>,
      getModule = (\<lambda>x y. x = y \<and> x < 3)\<rparr>"

section \<open>The renderer and the dark-module count\<close>

subsection \<open>The loops of \<open>toSvg\<close>\<close>

lemma toSvg_x_eq:
  "toSvg_x qr y x path =
     path @ concat (map (\<lambda>x. moduleCommand x y) (filter (\<lambda>x. getModule qr x y) [x..<size_qr qr]))"
proof (induction qr y x path rule: toSvg_x.induct)
  case (1 qr y x path)
  show ?case
  proof (cases "x < size_qr qr")
    case True
    then show ?thesis
      using "1.IH" [OF True] by (subst toSvg_x.simps) (simp add: upt_conv_Cons)
  next
    case False
    then show ?thesis by (subst toSvg_x.simps) simp
  qed
qed

lemma toSvg_y_eq:
  "toSvg_y qr y path =
     path @ concat (map (\<lambda>y. concat (map (\<lambda>x. moduleCommand x y)
                                  (filter (\<lambda>x. getModule qr x y) [0..<size_qr qr])))
                     [y..<size_qr qr])"
proof (induction qr y path rule: toSvg_y.induct)
  case (1 qr y path)
  show ?case
  proof (cases "y < size_qr qr")
    case True
    then show ?thesis
      using "1.IH" [OF True] by (subst toSvg_y.simps) (simp add: upt_conv_Cons toSvg_x_eq)
  next
    case False
    then show ?thesis by (subst toSvg_y.simps) simp
  qed
qed

lemma filter_rowMajor:
  "filter (\<lambda>(x, y). P x y) (rowMajor n) =
     concat (map (\<lambda>y. map (\<lambda>x. (x, y)) (filter (\<lambda>x. P x y) [0..<n])) [0..<n])"
  by (simp add: rowMajor_def filter_concat filter_map comp_def)

lemma moduleCommand_unitSquare: "moduleCommand x y = unitSquare (x, y) @ '' ''"
  by (simp add: moduleCommand_def unitSquare_def SVG_BORDER_def)

lemma concat_concat_map:
  "concat (concat (map f ys)) = concat (map (\<lambda>y. concat (f y)) ys)"
  by (induction ys) simp_all

lemma toSvg_path:
  "toSvg_y qr 0 '''' = concat (map (\<lambda>c. unitSquare c @ '' '') (darkCells qr))"
  by (simp add: toSvg_y_eq darkCells_def filter_rowMajor map_concat comp_def
      moduleCommand_unitSquare concat_concat_map)

lemma numberToString_digits: "set (numberToString n) \<subseteq> set ''0123456789''"
proof (induction n rule: numberToString.induct)
  case (1 n)
  have d: "\<And>k. k < 10 \<Longrightarrow> digitChar k \<in> set ''0123456789''"
    unfolding digitChar_def by (rule nth_mem) simp
  show ?case
  proof (cases "n < 10")
    case True
    then show ?thesis using d [of n] by (subst numberToString.simps) simp
  next
    case False
    then show ?thesis using "1.IH" d [of "n mod 10"]
      by (subst numberToString.simps) simp
  qed
qed

lemma commands_spaceJoined:
  "concat (map (\<lambda>c. c @ '' '') cs) = (if cs = [] then [] else spaceJoined cs @ '' '')"
  by (induction cs rule: spaceJoined.induct) simp_all

lemma spaceJoined_ends:
  "cs \<noteq> [] \<Longrightarrow> \<forall>c \<in> set cs. c \<noteq> [] \<Longrightarrow>
     spaceJoined cs \<noteq> [] \<and> hd (spaceJoined cs) = hd (hd cs)
       \<and> last (spaceJoined cs) = last (last cs)"
  by (induction cs rule: spaceJoined.induct) simp_all

lemma trim_trailing_space:
  assumes "s \<noteq> []" "\<not> isWhiteSpace (hd s)" "\<not> isWhiteSpace (last s)"
  shows "trim (s @ '' '') = s"
proof -
  from assms obtain a as where a: "s = a # as" by (cases s) auto
  from assms obtain bs b where b: "s = bs @ [b]" by (cases s rule: rev_cases) auto
  have sp: "isWhiteSpace CHR '' ''" by (simp add: isWhiteSpace_def)
  have 1: "dropWhile isWhiteSpace (s @ '' '') = s @ '' ''" using assms a by simp
  have 2: "dropWhile isWhiteSpace (rev (s @ '' '')) = rev s" using assms b sp by simp
  show ?thesis unfolding trim_def 1 2 by simp
qed

lemma unitSquare_ends:
  "unitSquare c \<noteq> [] \<and> hd (unitSquare c) = CHR ''M'' \<and> last (unitSquare c) = CHR ''z''"
  by (simp add: unitSquare_def)

lemma trim_path:
  "trim (concat (map (\<lambda>c. unitSquare c @ '' '') cells)) = spaceJoined (map unitSquare cells)"
proof (cases "cells = []")
  case True
  then show ?thesis by (simp add: trim_def)
next
  case False
  let ?cs = "map unitSquare cells"
  have ne: "?cs \<noteq> []" using False by simp
  have all: "\<forall>c \<in> set ?cs. c \<noteq> []" by (auto simp: unitSquare_ends)
  have hd: "hd (hd ?cs) = CHR ''M''" using False by (simp add: hd_map unitSquare_ends)
  have la: "last (last ?cs) = CHR ''z''" using False by (simp add: last_map unitSquare_ends)
  note e = spaceJoined_ends [OF ne all]
  have "concat (map (\<lambda>c. unitSquare c @ '' '') cells) = spaceJoined ?cs @ '' ''"
    using commands_spaceJoined [of ?cs] False by (simp add: comp_def)
  moreover have "trim (spaceJoined ?cs @ '' '') = spaceJoined ?cs"
    by (rule trim_trailing_space) (simp_all add: e hd la isWhiteSpace_def)
  ultimately show ?thesis by simp
qed

lemma toSvg_specDocument: "toSvg qr = specDocument qr"
  by (simp add: toSvg_def specDocument_def Let_def toSvg_path trim_path SVG_BORDER_def)

subsection \<open>Row-major order\<close>

lemma set_rowMajor: "set (rowMajor n) = {(x, y). x < n \<and> y < n}"
  by (auto simp: rowMajor_def)

lemma sorted_row: "sorted_wrt rowMajorBefore (map (\<lambda>x. (x, y)) [0..<n])"
  by (simp add: sorted_wrt_map rowMajorBefore_def sorted_wrt_iff_nth_less)

lemma sorted_rows:
  "m \<le> n \<Longrightarrow> sorted_wrt rowMajorBefore (concat (map (\<lambda>y. map (\<lambda>x. (x, y)) [0..<n]) [0..<m]))"
proof (induction m)
  case 0
  then show ?case by simp
next
  case (Suc m)
  then show ?case
    by (simp add: sorted_wrt_append sorted_row) (auto simp: rowMajorBefore_def)
qed

lemma sorted_rowMajor: "sorted_wrt rowMajorBefore (rowMajor n)"
  unfolding rowMajor_def by (rule sorted_rows) simp

lemma sorted_darkCells: "sorted_wrt rowMajorBefore (darkCells qr)"
  unfolding darkCells_def by (rule sorted_wrt_filter) (rule sorted_rowMajor)

lemma distinct_darkCells: "distinct (darkCells qr)"
proof -
  have "\<And>c. \<not> rowMajorBefore c c" by (simp add: rowMajorBefore_def)
  then show ?thesis using sorted_darkCells [of qr]
    by (metis (no_types, lifting) distinct_conv_nth sorted_wrt_iff_nth_less nat_neq_iff)
qed

lemma set_darkCells:
  "set (darkCells qr) = {(x, y). x < size_qr qr \<and> y < size_qr qr \<and> getModule qr x y}"
  by (auto simp: darkCells_def set_rowMajor)

subsection \<open>The loops of \<open>countDarkModules\<close>\<close>

lemma countDarkModules_x_eq:
  "countDarkModules_x qr y x dark =
     dark + length (filter (\<lambda>x. getModule qr x y) [x..<size_qr qr])"
proof (induction qr y x dark rule: countDarkModules_x.induct)
  case (1 qr y x dark)
  show ?case
  proof (cases "x < size_qr qr")
    case True
    then show ?thesis
      using "1.IH" [OF True] by (subst countDarkModules_x.simps) (simp add: upt_conv_Cons)
  next
    case False
    then show ?thesis by (subst countDarkModules_x.simps) simp
  qed
qed

lemma countDarkModules_y_eq:
  "countDarkModules_y qr y dark =
     dark + (\<Sum>y \<leftarrow> [y..<size_qr qr]. length (filter (\<lambda>x. getModule qr x y) [0..<size_qr qr]))"
proof (induction qr y dark rule: countDarkModules_y.induct)
  case (1 qr y dark)
  show ?case
  proof (cases "y < size_qr qr")
    case True
    then show ?thesis
      using "1.IH" [OF True]
      by (subst countDarkModules_y.simps) (simp add: upt_conv_Cons countDarkModules_x_eq)
  next
    case False
    then show ?thesis by (subst countDarkModules_y.simps) simp
  qed
qed

lemma countDarkModules_darkCells: "countDarkModules qr = length (darkCells qr)"
  by (simp add: countDarkModules_def countDarkModules_y_eq darkCells_def filter_rowMajor
      length_concat comp_def)

lemma numberToString_no_M: "filter (\<lambda>c. c = CHR ''M'') (numberToString n) = []"
  using numberToString_digits [of n] by (auto simp: filter_empty_conv)

lemma unitSquare_one_M: "length (filter (\<lambda>c. c = CHR ''M'') (unitSquare c)) = 1"
  by (simp add: unitSquare_def numberToString_no_M)

lemma spaceJoined_count_M:
  "length (filter (\<lambda>c. c = CHR ''M'') (spaceJoined (map unitSquare cells))) = length cells"
proof (induction cells)
  case Nil
  then show ?case by simp
next
  case (Cons a cells)
  then show ?case by (cases cells) (simp_all add: unitSquare_one_M)
qed

lemma subpathCount_toSvg: "subpathCount (toSvg qr) = countDarkModules qr"
  by (simp add: toSvg_specDocument specDocument_def subpathCount_def numberToString_no_M
      spaceJoined_count_M countDarkModules_darkCells)

subsection \<open>The pipeline on the sample engine\<close>

lemma toSvg_sample:
  \<open>toSvg (sampleSymbol l m) = ''<svg xmlns="http://www.w3.org/2000/svg" viewBox="0 0 7 7" shape-rendering="crispEdges"><rect width="100%" height="100%" fill="#fff"/><path d="M2,2h1v1h-1z M3,3h1v1h-1z M4,4h1v1h-1z" fill="#000"/></svg>''\<close>
  by (simp add: toSvg_def sampleSymbol_def toSvg_y.simps toSvg_x.simps moduleCommand_def
      SVG_BORDER_def numberToString.simps digitChar_def trim_def isWhiteSpace_def)

lemma countDarkModules_sample: "countDarkModules (sampleSymbol l m) = 3"
  by (simp add: countDarkModules_def sampleSymbol_def countDarkModules_y.simps
      countDarkModules_x.simps)

lemma sample_run_numeric:
  "generateQrCode sampleEngine (sampleOptions ''12345'' Numeric) =
     Inr \<lparr>svg = toSvg (sampleSymbol \<lparr>ordinal = 1\<rparr> (- 1)),
          metadata = \<lparr>requestedMode = Numeric, usedMode = Used_numeric, requestedEcl = MEDIUM,
                      actualEcl = Some MEDIUM, version_meta = 1, size_meta = 3, mask_meta = 0,
                      segmentCount = 1,
                      darkModules = countDarkModules (sampleSymbol \<lparr>ordinal = 1\<rparr> (- 1))\<rparr>\<rparr>"
  by (simp add: generateQrCode_def sampleOptions_def sampleEngine_def clampVersion_def
      Math_min_def Math_max_def js_or_def js_greater_def buildSegments_def single_def
      isDigit_def ECL_MAP_def ECL_BY_ORDINAL_def detectUsedMode_def set_add_def
      segmentModeUsed_def MODE_BY_BITS_def segmentOf_def sampleSymbol_def)

subsection \<open>Rendering and counting\<close>

text \<open>
  C1. For every module matrix, \<open>toSvg\<close> writes the document of the specification: the
  view box \<open>0 0 (size + 4) (size + 4)\<close>, one full-canvas white rectangle, and one black
  path whose \<open>d\<close> attribute is the space-joined list of one closed unit square
  \<open>M(x+2),(y+2)h1v1h-1z\<close> per dark cell. The cells drawn are exactly the dark cells of
  the grid, each once and on its own (nothing for a light cell, no merging of
  neighbours), in row-major order.
\<close>

theorem toSvg_document:
  "toSvg qr = specDocument qr
   \<and> set (darkCells qr) = {(x, y). x < size_qr qr \<and> y < size_qr qr \<and> getModule qr x y}
   \<and> distinct (darkCells qr)
   \<and> sorted_wrt rowMajorBefore (darkCells qr)"
  by (simp add: toSvg_specDocument set_darkCells distinct_darkCells sorted_darkCells)

text \<open>
  C2. The dark-module count equals the number of subpaths \<open>toSvg\<close> writes for the same
  matrix; so in every result of \<open>generateQrCode\<close> the field \<open>darkModules\<close> is the number
  of subpaths of the field \<open>svg\<close>.
\<close>

theorem darkModules_subpaths:
  "subpathCount (toSvg qr) = countDarkModules qr
   \<and> (generateQrCode E options = Inr r \<longrightarrow> darkModules (metadata r) = subpathCount (svg r))"
  by (auto simp: subpathCount_toSvg generateQrCode_def Let_def split: if_splits sum.splits)

theorem darkModules_subpaths_witness:
  "\<exists>r. generateQrCode sampleEngine (sampleOptions ''12345'' Numeric) = Inr r
       \<and> darkModules (metadata r) = subpathCount (svg r) \<and> subpathCount (svg r) = 3"
proof -
  let ?qr = "sampleSymbol \<lparr>ordinal = 1\<rparr> (- 1)"
  obtain r where run: "generateQrCode sampleEngine (sampleOptions ''12345'' Numeric) = Inr r"
    and dark: "darkModules (metadata r) = countDarkModules ?qr"
    using sample_run_numeric by force
  from darkModules_subpaths [of ?qr sampleEngine "sampleOptions ''12345'' Numeric" r] run
  have "darkModules (metadata r) = subpathCount (svg r)" by blast
  with run dark show ?thesis by (auto simp: countDarkModules_sample)
qed

section \<open>Version normalisation and the range check\<close>

subsection \<open>clampVersion\<close>

lemma clampVersion_NaN: "clampVersion NaN = Num 1"
  by (simp add: clampVersion_def js_or_def Math_max_def Math_min_def)

lemma clampVersion_NegInfinity: "clampVersion NegInfinity = Num 1"
  by (simp add: clampVersion_def js_or_def Math_max_def Math_min_def)

lemma clampVersion_PosInfinity: "clampVersion PosInfinity = Num 40"
  by (simp add: clampVersion_def js_or_def Math_max_def Math_min_def)

lemma clamp_integer:
  "Math_min (Num 40) (Math_max (Num 1) (js_or (Num (of_int t)) (Num 1))) =
     Num (of_int (min 40 (max 1 t)))"
  by (auto simp: js_or_def Math_max_def Math_min_def min_def max_def)

lemma clampVersion_Num:
  "clampVersion (Num q) = Num (of_int (min 40 (max 1 (if 0 \<le> q then \<lfloor>q\<rfloor> else \<lceil>q\<rceil>))))"
  unfolding clampVersion_def Math_trunc.simps by (rule clamp_integer)

lemma clampVersion_spec_NaN: "clampVersion_spec NaN = Num 1"
  by (simp add: clampVersion_spec_def Math_max_def Math_min_def)

lemma clampVersion_spec_NegInfinity: "clampVersion_spec NegInfinity = Num 1"
  by (simp add: clampVersion_spec_def Math_max_def Math_min_def)

lemma clampVersion_spec_PosInfinity: "clampVersion_spec PosInfinity = Num 1"
  by (simp add: clampVersion_spec_def Math_max_def Math_min_def)

lemma clamp_integer_spec:
  "Math_min (Num 40)
     (Math_max (Num 1)
        (if isFinite (Num (of_int t)) \<and> js_less (Num 0) (Num (of_int t))
         then Num (of_int t) else Num 1)) =
     Num (of_int (min 40 (max 1 t)))"
  by (auto simp: Math_max_def Math_min_def min_def max_def)

lemma clampVersion_spec_Num:
  "clampVersion_spec (Num q) = Num (of_int (min 40 (max 1 (if 0 \<le> q then \<lfloor>q\<rfloor> else \<lceil>q\<rceil>))))"
  unfolding clampVersion_spec_def Let_def Math_trunc.simps by (rule clamp_integer_spec)

lemma clampVersion_range: "\<exists>k. clampVersion v = Num (of_int k) \<and> 1 \<le> k \<and> k \<le> 40"
proof (cases v)
  case (Num q)
  show ?thesis unfolding Num clampVersion_Num by (rule exI, rule conjI, rule refl) simp
qed (auto simp: clampVersion_NaN clampVersion_NegInfinity clampVersion_PosInfinity intro: exI [of _ 1] exI [of _ 40])

text \<open>
  C5 (as amended). For every number, \<open>clampVersion\<close> truncates towards zero, takes 1
  when the truncated value is zero or NaN, and clamps into \<open>[1, 40]\<close>. So NaN,
  \<open>-Infinity\<close> and every value below 1 give 1, a finite value gives its truncation
  clamped, and \<open>+Infinity\<close> gives 40. This agrees with the specification's rule
  everywhere but at \<open>+Infinity\<close>. The result is always an integer between 1 and 40; the
  function has no failing path.
\<close>

theorem clampVersion_repairs:
  "clampVersion v =
     (case v of Num q \<Rightarrow> Num (of_int (min 40 (max 1 (if 0 \<le> q then \<lfloor>q\<rfloor> else \<lceil>q\<rceil>))))
      | PosInfinity \<Rightarrow> Num 40 | _ \<Rightarrow> Num 1)
   \<and> clampVersion v = (if v = PosInfinity then Num 40 else clampVersion_spec v)
   \<and> (\<exists>k. clampVersion v = Num (of_int k) \<and> 1 \<le> k \<and> k \<le> 40)"
  using clampVersion_range [of v]
  by (cases v)
     (simp_all add: clampVersion_NaN clampVersion_NegInfinity clampVersion_PosInfinity
        clampVersion_Num clampVersion_spec_NaN clampVersion_spec_NegInfinity clampVersion_spec_Num)

theorem clampVersion_repairs_witness:
  "clampVersion (Num (- 7 / 2)) = Num 1 \<and> clampVersion (Num (5 / 2)) = Num 2
   \<and> clampVersion (Num (81 / 2)) = Num 40 \<and> clampVersion NaN = Num 1
   \<and> clampVersion NegInfinity = Num 1"
  using clampVersion_repairs [of "Num (- 7 / 2)"] clampVersion_repairs [of "Num (5 / 2)"]
    clampVersion_repairs [of "Num (81 / 2)"] clampVersion_repairs [of NaN]
    clampVersion_repairs [of NegInfinity]
  by (simp add: floor_eq_iff)

text \<open>
  The claim as the specification words it fails at \<open>+Infinity\<close>: the value is not
  finite, so the specification's rule substitutes 1, while the program's \<open>||\<close> keeps
  the truthy \<open>Infinity\<close> and the clamp then yields 40.
\<close>

theorem clampVersion_infinity_counterexample:
  "clampVersion PosInfinity = Num 40 \<and> clampVersion_spec PosInfinity = Num 1"
  by (simp add: clampVersion_PosInfinity clampVersion_spec_PosInfinity)

subsection \<open>The range check\<close>

lemma clamped_order:
  "\<exists>a b. clampVersion u = Num (of_int a) \<and> clampVersion v = Num (of_int b)
         \<and> (js_greater (clampVersion u) (clampVersion v) \<longleftrightarrow> b < a)"
proof -
  obtain a where a: "clampVersion u = Num (of_int a)" using clampVersion_range by blast
  obtain b where b: "clampVersion v = Num (of_int b)" using clampVersion_range by blast
  show ?thesis
    by (rule exI [of _ a], rule exI [of _ b]) (simp add: a b js_greater_def)
qed

text \<open>
  C3. When the clamped minimum version exceeds the clamped maximum, \<open>generateQrCode\<close>
  fails with \<open>InvalidRange\<close> (an error result carries no document); when it does not,
  \<open>InvalidRange\<close> is not the outcome, whatever the engine does. The two clamped
  versions are integers, compared as such.
\<close>

theorem generateQrCode_InvalidRange:
  "(js_greater (clampVersion (minVersion options)) (clampVersion (maxVersion options))
      \<longrightarrow> generateQrCode E options = Inl InvalidRange)
   \<and> (\<not> js_greater (clampVersion (minVersion options)) (clampVersion (maxVersion options))
      \<longrightarrow> generateQrCode E options \<noteq> Inl InvalidRange)
   \<and> (\<exists>a b. clampVersion (minVersion options) = Num (of_int a)
          \<and> clampVersion (maxVersion options) = Num (of_int b)
          \<and> (js_greater (clampVersion (minVersion options)) (clampVersion (maxVersion options))
               \<longleftrightarrow> b < a))"
  using clamped_order [of "minVersion options" "maxVersion options"]
  by (auto simp: generateQrCode_def Let_def split: sum.splits)


lemma sampleEngine_segmenter:
  "makeSegments sampleEngine t = Inr ss \<Longrightarrow> (ss = [] \<longleftrightarrow> t = [])"
  by (auto simp: sampleEngine_def split: if_splits)

lemma sample_run_empty_auto:
  "generateQrCode sampleEngine (sampleOptions '''' Auto) =
     Inr \<lparr>svg = toSvg (sampleSymbol \<lparr>ordinal = 1\<rparr> (- 1)),
          metadata = \<lparr>requestedMode = Auto, usedMode = Used_none, requestedEcl = MEDIUM,
                      actualEcl = Some MEDIUM, version_meta = 1, size_meta = 3, mask_meta = 0,
                      segmentCount = 0,
                      darkModules = countDarkModules (sampleSymbol \<lparr>ordinal = 1\<rparr> (- 1))\<rparr>\<rparr>"
  by (simp add: generateQrCode_def sampleOptions_def sampleEngine_def clampVersion_def
      Math_min_def Math_max_def js_or_def js_greater_def buildSegments_def
      ECL_MAP_def ECL_BY_ORDINAL_def detectUsedMode_def sampleSymbol_def)

lemma sample_run_empty_numeric:
  "generateQrCode sampleEngine (sampleOptions '''' Numeric) =
     Inr \<lparr>svg = toSvg (sampleSymbol \<lparr>ordinal = 1\<rparr> (- 1)),
          metadata = \<lparr>requestedMode = Numeric, usedMode = Used_numeric, requestedEcl = MEDIUM,
                      actualEcl = Some MEDIUM, version_meta = 1, size_meta = 3, mask_meta = 0,
                      segmentCount = 1,
                      darkModules = countDarkModules (sampleSymbol \<lparr>ordinal = 1\<rparr> (- 1))\<rparr>\<rparr>"
  by (simp add: generateQrCode_def sampleOptions_def sampleEngine_def clampVersion_def
      Math_min_def Math_max_def js_or_def js_greater_def buildSegments_def single_def
      ECL_MAP_def ECL_BY_ORDINAL_def detectUsedMode_def set_add_def
      segmentModeUsed_def MODE_BY_BITS_def segmentOf_def sampleSymbol_def)

lemma sample_run_mixed_auto:
  "generateQrCode sampleEngine (sampleOptions ''a1'' Auto) =
     Inr \<lparr>svg = toSvg (sampleSymbol \<lparr>ordinal = 1\<rparr> (- 1)),
          metadata = \<lparr>requestedMode = Auto, usedMode = Used_byte, requestedEcl = MEDIUM,
                      actualEcl = Some MEDIUM, version_meta = 1, size_meta = 3, mask_meta = 0,
                      segmentCount = 1,
                      darkModules = countDarkModules (sampleSymbol \<lparr>ordinal = 1\<rparr> (- 1))\<rparr>\<rparr>"
  by (simp add: generateQrCode_def sampleOptions_def sampleEngine_def clampVersion_def
      Math_min_def Math_max_def js_or_def js_greater_def buildSegments_def single_def
      isDigit_def isAlphanumericChar_def
      ECL_MAP_def ECL_BY_ORDINAL_def detectUsedMode_def set_add_def
      segmentModeUsed_def MODE_BY_BITS_def segmentOf_def sampleSymbol_def)

theorem generateQrCode_InvalidRange_witness:
  "js_greater (clampVersion (Num 5)) (clampVersion (Num 3))
   \<and> generateQrCode sampleEngine
        ((sampleOptions ''12345'' Numeric)\<lparr>minVersion := Num 5, maxVersion := Num 3\<rparr>) = Inl InvalidRange
   \<and> \<not> js_greater (clampVersion (Num 1)) (clampVersion (Num 40))
   \<and> generateQrCode sampleEngine (sampleOptions ''12345'' Numeric) \<noteq> Inl InvalidRange"
proof -
  have gt: "js_greater (clampVersion (Num 5)) (clampVersion (Num 3))"
    by (simp add: clampVersion_Num js_greater_def)
  have le: "\<not> js_greater (clampVersion (Num 1)) (clampVersion (Num 40))"
    by (simp add: clampVersion_Num js_greater_def)
  from gt generateQrCode_InvalidRange
         [of "(sampleOptions ''12345'' Numeric)\<lparr>minVersion := Num 5, maxVersion := Num 3\<rparr>" sampleEngine]
  have 1: "generateQrCode sampleEngine
        ((sampleOptions ''12345'' Numeric)\<lparr>minVersion := Num 5, maxVersion := Num 3\<rparr>) = Inl InvalidRange"
    by (simp add: sampleOptions_def)
  from le generateQrCode_InvalidRange [of "sampleOptions ''12345'' Numeric" sampleEngine]
  have 2: "generateQrCode sampleEngine (sampleOptions ''12345'' Numeric) \<noteq> Inl InvalidRange"
    by (simp add: sampleOptions_def)
  from gt le 1 2 show ?thesis by blast
qed

section \<open>Mode classification\<close>

subsection \<open>detectUsedMode\<close>

lemma set_add_set: "set (set_add x used) = insert x (set used)"
  by (auto simp: set_add_def)

lemma set_add_distinct: "distinct used \<Longrightarrow> distinct (set_add x used)"
  by (simp add: set_add_def)

lemma loop_set:
  "set (detectUsedMode_loop segments used) = set used \<union> segmentModeUsed ` set segments"
  by (induction segments arbitrary: used) (auto simp: set_add_set)

lemma loop_distinct: "distinct used \<Longrightarrow> distinct (detectUsedMode_loop segments used)"
  by (induction segments arbitrary: used) (simp_all add: set_add_distinct)

lemma length_one_iff:
  assumes "distinct xs"
  shows "length xs = 1 \<longleftrightarrow> (\<exists>x. set xs = {x})"
proof
  assume "length xs = 1"
  then obtain x where "xs = [x]" by (cases xs) auto
  then show "\<exists>x. set xs = {x}" by simp
next
  assume "\<exists>x. set xs = {x}"
  then obtain x where "set xs = {x}" ..
  then have "card (set xs) = 1" by simp
  with assms show "length xs = 1" by (simp add: distinct_card)
qed

lemma segmentModeUsed_not_none: "segmentModeUsed s \<noteq> Used_none"
  by (auto simp: segmentModeUsed_def MODE_BY_BITS_def split: option.splits if_splits)

lemma detectUsedMode_cases:
  assumes "segments \<noteq> []"
  shows "detectUsedMode segments =
           (if \<exists>m. segmentModeUsed ` set segments = {m}
            then segmentModeUsed (hd segments) else Used_mixed)"
proof -
  let ?used = "detectUsedMode_loop segments []"
  have d: "distinct ?used" by (rule loop_distinct) simp
  have s: "set ?used = segmentModeUsed ` set segments" by (simp add: loop_set)
  have one: "length ?used = 1 \<longleftrightarrow> (\<exists>m. segmentModeUsed ` set segments = {m})"
    using length_one_iff [OF d] s by simp
  show ?thesis
  proof (cases "\<exists>m. segmentModeUsed ` set segments = {m}")
    case True
    then obtain m where m: "segmentModeUsed ` set segments = {m}" by blast
    with one have l: "length ?used = 1" by blast
    then obtain u where u: "?used = [u]" by (cases ?used) auto
    with s m have "u = m" by auto
    moreover have "segmentModeUsed (hd segments) = m" using m assms by (cases segments) auto
    ultimately show ?thesis using True l u assms by (simp add: detectUsedMode_def)
  next
    case False
    with one have "length ?used \<noteq> 1" by blast
    with False assms show ?thesis by (simp add: detectUsedMode_def)
  qed
qed

lemma detectUsedMode_none_iff: "detectUsedMode segments = Used_none \<longleftrightarrow> segments = []"
proof (cases "segments = []")
  case True
  then show ?thesis by (simp add: detectUsedMode_def)
next
  case False
  then show ?thesis
    by (simp add: detectUsedMode_cases segmentModeUsed_not_none)
qed

lemma detectUsedMode_common:
  assumes "segments \<noteq> []" "\<forall>s \<in> set segments. modeBits (mode_seg s) = b" "MODE_BY_BITS b = Some m"
  shows "detectUsedMode segments = m"
proof -
  have all: "\<forall>s \<in> set segments. segmentModeUsed s = m"
    using assms by (simp add: segmentModeUsed_def)
  with assms(1) have "segmentModeUsed ` set segments = {m}" by (cases segments) auto
  moreover have "segmentModeUsed (hd segments) = m" using all assms(1) by simp
  ultimately show ?thesis using assms(1) by (auto simp: detectUsedMode_cases)
qed

lemma MODE_BY_BITS_inj:
  "MODE_BY_BITS b = Some m \<Longrightarrow> MODE_BY_BITS b' = Some m \<Longrightarrow> b = b'"
  by (auto simp: MODE_BY_BITS_def split: if_splits)

lemma detectUsedMode_mixed:
  assumes "s \<in> set segments" "s' \<in> set segments"
    "modeBits (mode_seg s) \<noteq> modeBits (mode_seg s')"
  shows "detectUsedMode segments = Used_mixed"
proof (cases "\<exists>m. segmentModeUsed ` set segments = {m}")
  case True
  then obtain m where m: "segmentModeUsed ` set segments = {m}" by blast
  with assms have a: "segmentModeUsed s = m" "segmentModeUsed s' = m" by auto
  have "m = Used_mixed"
  proof (rule ccontr)
    assume n: "m \<noteq> Used_mixed"
    from a n have "MODE_BY_BITS (modeBits (mode_seg s)) = Some m"
      "MODE_BY_BITS (modeBits (mode_seg s')) = Some m"
      by (auto simp: segmentModeUsed_def split: option.splits)
    with assms(3) show False using MODE_BY_BITS_inj by blast
  qed
  moreover have "segmentModeUsed (hd segments) = m" using m assms(1) by (cases segments) auto
  moreover have "segments \<noteq> []" using assms(1) by auto
  ultimately show ?thesis using True by (simp add: detectUsedMode_cases)
next
  case False
  moreover have "segments \<noteq> []" using assms(1) by auto
  ultimately show ?thesis by (simp add: detectUsedMode_cases)
qed

lemma generateQrCode_Inr:
  assumes "generateQrCode E options = Inr r"
  shows "\<exists>segments qr.
    \<not> js_greater (clampVersion (minVersion options)) (clampVersion (maxVersion options))
    \<and> buildSegments E (text_in options) (mode options) = Inr segments
    \<and> encodeSegments E segments (ECL_MAP E (ecl options)) (clampVersion (minVersion options))
       (clampVersion (maxVersion options)) (case mask options of Mask_auto \<Rightarrow> - 1 | Mask k \<Rightarrow> k)
       (boostEcl options) = Inr qr
    \<and> svg r = toSvg qr
    \<and> usedMode (metadata r) = detectUsedMode segments
    \<and> segmentCount (metadata r) = length segments
    \<and> darkModules (metadata r) = countDarkModules qr
    \<and> size_meta (metadata r) = size_qr qr"
proof -
  let ?minV = "clampVersion (minVersion options)"
  let ?maxV = "clampVersion (maxVersion options)"
  from assms have range: "\<not> js_greater ?minV ?maxV"
    by (auto simp: generateQrCode_def Let_def)
  show ?thesis
  proof (cases "buildSegments E (text_in options) (mode options)")
    case (Inl e)
    with assms range show ?thesis by (simp add: generateQrCode_def Let_def)
  next
    case segs: (Inr segments)
    show ?thesis
    proof (cases "encodeSegments E segments (ECL_MAP E (ecl options)) ?minV ?maxV
       (case mask options of Mask_auto \<Rightarrow> - 1 | Mask k \<Rightarrow> k) (boostEcl options)")
      case (Inl e)
      with assms range segs show ?thesis by (simp add: generateQrCode_def Let_def)
    next
      case (Inr qr)
      with assms range segs have "r = \<lparr>svg = toSvg qr,
         metadata = \<lparr>requestedMode = mode options, usedMode = detectUsedMode segments,
           requestedEcl = ecl options,
           actualEcl = ECL_BY_ORDINAL (ordinal (errorCorrectionLevel qr)),
           version_meta = version qr, size_meta = size_qr qr, mask_meta = mask_qr qr,
           segmentCount = length segments, darkModules = countDarkModules qr\<rparr>\<rparr>"
        by (simp add: generateQrCode_def Let_def)
      with range segs Inr show ?thesis by simp
    qed
  qed
qed

text \<open>
  C6. \<open>detectUsedMode\<close> returns \<open>none\<close> exactly for the empty list; the common mode
  when all segments carry the same mode bits and these are numeric, alphanumeric or byte;
  and \<open>mixed\<close> when two segments differ in their mode bits. Hence, for an engine whose
  automatic segmenter returns no segment exactly for the empty text, a successful run in
  mode \<open>auto\<close> reports \<open>none\<close> if and only if the text is empty.
\<close>

theorem detectUsedMode_classifies:
  "(detectUsedMode segments = Used_none \<longleftrightarrow> segments = [])
   \<and> (segments \<noteq> [] \<and> (\<forall>s \<in> set segments. modeBits (mode_seg s) = b) \<and> MODE_BY_BITS b = Some m
        \<longrightarrow> detectUsedMode segments = m)
   \<and> ((\<exists>s \<in> set segments. \<exists>s' \<in> set segments. modeBits (mode_seg s) \<noteq> modeBits (mode_seg s'))
        \<longrightarrow> detectUsedMode segments = Used_mixed)
   \<and> ((\<forall>t ss. makeSegments E t = Inr ss \<longrightarrow> (ss = [] \<longleftrightarrow> t = []))
        \<and> mode options = Auto \<and> generateQrCode E options = Inr r
        \<longrightarrow> (usedMode (metadata r) = Used_none \<longleftrightarrow> text_in options = []))"
proof (intro conjI impI)
  show "detectUsedMode segments = Used_none \<longleftrightarrow> segments = []"
    by (rule detectUsedMode_none_iff)
next
  assume "segments \<noteq> [] \<and> (\<forall>s \<in> set segments. modeBits (mode_seg s) = b) \<and> MODE_BY_BITS b = Some m"
  then show "detectUsedMode segments = m" using detectUsedMode_common by blast
next
  assume "\<exists>s \<in> set segments. \<exists>s' \<in> set segments. modeBits (mode_seg s) \<noteq> modeBits (mode_seg s')"
  then show "detectUsedMode segments = Used_mixed" using detectUsedMode_mixed by blast
next
  assume a: "(\<forall>t ss. makeSegments E t = Inr ss \<longrightarrow> (ss = [] \<longleftrightarrow> t = []))
        \<and> mode options = Auto \<and> generateQrCode E options = Inr r"
  then have run: "generateQrCode E options = Inr r" by simp
  from generateQrCode_Inr [OF run]
  obtain ss where b: "buildSegments E (text_in options) (mode options) = Inr ss"
    and u: "usedMode (metadata r) = detectUsedMode ss"
    by blast
  from a b have "makeSegments E (text_in options) = Inr ss" by (simp add: buildSegments_def)
  with a have "ss = [] \<longleftrightarrow> text_in options = []" by blast
  with u show "usedMode (metadata r) = Used_none \<longleftrightarrow> text_in options = []"
    by (simp add: detectUsedMode_none_iff)
qed

theorem detectUsedMode_classifies_witness:
  "detectUsedMode ([] :: nat list QrSegment list) = Used_none
   \<and> detectUsedMode [segmentOf 2 [65], segmentOf 2 [66]] = Used_alphanumeric
   \<and> detectUsedMode [segmentOf 1 [49], segmentOf 4 [200]] = Used_mixed
   \<and> (\<exists>r. generateQrCode sampleEngine (sampleOptions '''' Auto) = Inr r
          \<and> usedMode (metadata r) = Used_none)
   \<and> (\<exists>r. generateQrCode sampleEngine (sampleOptions ''a1'' Auto) = Inr r
          \<and> usedMode (metadata r) \<noteq> Used_none)"
proof -
  have contract: "\<forall>t ss. makeSegments sampleEngine t = Inr ss \<longrightarrow> (ss = [] \<longleftrightarrow> t = [])"
    using sampleEngine_segmenter by blast
  obtain r where r: "generateQrCode sampleEngine (sampleOptions '''' Auto) = Inr r"
    using sample_run_empty_auto by blast
  obtain r' where r': "generateQrCode sampleEngine (sampleOptions ''a1'' Auto) = Inr r'"
    using sample_run_mixed_auto by blast
  have 1: "detectUsedMode ([] :: nat list QrSegment list) = Used_none"
    and 4: "usedMode (metadata r) = Used_none"
    using contract r
      detectUsedMode_classifies [of "[] :: nat list QrSegment list" 1 Used_numeric sampleEngine
        "sampleOptions '''' Auto" r]
    by (simp_all add: sampleOptions_def)
  have 2: "detectUsedMode [segmentOf 2 [65], segmentOf 2 [66]] = Used_alphanumeric"
    and 5: "usedMode (metadata r') \<noteq> Used_none"
    using contract r'
      detectUsedMode_classifies [of "[segmentOf 2 [65], segmentOf 2 [66]]" 2 Used_alphanumeric
        sampleEngine "sampleOptions ''a1'' Auto" r']
    by (simp_all add: segmentOf_def MODE_BY_BITS_def sampleOptions_def)
  have 3: "detectUsedMode [segmentOf 1 [49], segmentOf 4 [200]] = Used_mixed"
    using detectUsedMode_classifies [of "[segmentOf 1 [49], segmentOf 4 [200]]" 1 Used_numeric
        sampleEngine "sampleOptions '''' Auto" r]
    by (auto simp: segmentOf_def)
  from 1 2 3 4 5 r r' show ?thesis by blast
qed

section \<open>Segments for the empty text\<close>

lemma buildSegments_explicit:
  "m \<noteq> Auto \<Longrightarrow> buildSegments E t m = Inr segments \<Longrightarrow> \<exists>s. segments = [s]"
  by (auto simp: buildSegments_def single_def split: if_splits sum.splits)

lemma generateQrCode_success:
  assumes "\<not> js_greater (clampVersion (minVersion options)) (clampVersion (maxVersion options))"
    and "buildSegments E (text_in options) (mode options) = Inr segments"
    and "encodeSegments E segments (ECL_MAP E (ecl options)) (clampVersion (minVersion options))
       (clampVersion (maxVersion options)) (case mask options of Mask_auto \<Rightarrow> - 1 | Mask k \<Rightarrow> k)
       (boostEcl options) = Inr qr"
  shows "\<exists>r. generateQrCode E options = Inr r"
  using assms by (simp add: generateQrCode_def Let_def)

lemma sample_run_empty_byte:
  "generateQrCode sampleEngine (sampleOptions '''' Byte) =
     Inr \<lparr>svg = toSvg (sampleSymbol \<lparr>ordinal = 1\<rparr> (- 1)),
          metadata = \<lparr>requestedMode = Byte, usedMode = Used_byte, requestedEcl = MEDIUM,
                      actualEcl = Some MEDIUM, version_meta = 1, size_meta = 3, mask_meta = 0,
                      segmentCount = 1,
                      darkModules = countDarkModules (sampleSymbol \<lparr>ordinal = 1\<rparr> (- 1))\<rparr>\<rparr>"
  by (simp add: generateQrCode_def sampleOptions_def sampleEngine_def clampVersion_def
      Math_min_def Math_max_def js_or_def js_greater_def buildSegments_def single_def
      ECL_MAP_def ECL_BY_ORDINAL_def detectUsedMode_def set_add_def
      segmentModeUsed_def MODE_BY_BITS_def segmentOf_def sampleSymbol_def)

text \<open>
  C4 (as amended). In mode \<open>auto\<close> the segments are the engine's; when its segmenter
  returns none for the empty text, a successful run reports \<open>segmentCount = 0\<close> and
  \<open>usedMode = none\<close>. In the modes \<open>numeric\<close>, \<open>alphanumeric\<close> and \<open>byte\<close>,
  \<open>buildSegments\<close> wraps the engine's one segment in a list, for the empty text as for
  any other: a successful run reports \<open>segmentCount = 1\<close> and a \<open>usedMode\<close> other than
  \<open>none\<close>. The run succeeds whenever the range check passes and the engine's
  constructor and encoder do.
\<close>

theorem empty_text_segments:
  "buildSegments E t Auto = makeSegments E t
   \<and> (m \<noteq> Auto \<and> buildSegments E t m = Inr segments \<longrightarrow> length segments = 1)
   \<and> (mode options = Auto \<and> text_in options = [] \<and> makeSegments E [] = Inr []
        \<and> generateQrCode E options = Inr r
        \<longrightarrow> segmentCount (metadata r) = 0 \<and> usedMode (metadata r) = Used_none)
   \<and> (mode options \<noteq> Auto \<and> generateQrCode E options = Inr r
        \<longrightarrow> segmentCount (metadata r) = 1 \<and> usedMode (metadata r) \<noteq> Used_none)
   \<and> (\<not> js_greater (clampVersion (minVersion options)) (clampVersion (maxVersion options))
        \<and> buildSegments E (text_in options) (mode options) = Inr segments'
        \<and> encodeSegments E segments' (ECL_MAP E (ecl options)) (clampVersion (minVersion options))
             (clampVersion (maxVersion options))
             (case mask options of Mask_auto \<Rightarrow> - 1 | Mask k \<Rightarrow> k) (boostEcl options) = Inr qr
        \<longrightarrow> (\<exists>r. generateQrCode E options = Inr r))"
proof (intro conjI impI)
  show "buildSegments E t Auto = makeSegments E t" by (simp add: buildSegments_def)
next
  assume "m \<noteq> Auto \<and> buildSegments E t m = Inr segments"
  then show "length segments = 1" using buildSegments_explicit by fastforce
next
  assume a: "mode options = Auto \<and> text_in options = [] \<and> makeSegments E [] = Inr []
        \<and> generateQrCode E options = Inr r"
  from a generateQrCode_Inr [of E options r]
  obtain ss where b: "buildSegments E (text_in options) (mode options) = Inr ss"
    and u: "usedMode (metadata r) = detectUsedMode ss"
    and c: "segmentCount (metadata r) = length ss"
    by blast
  from a b have "ss = []" by (simp add: buildSegments_def)
  with u c show "segmentCount (metadata r) = 0" "usedMode (metadata r) = Used_none"
    by (simp_all add: detectUsedMode_none_iff)
next
  assume a: "mode options \<noteq> Auto \<and> generateQrCode E options = Inr r"
  from a generateQrCode_Inr [of E options r]
  obtain ss where b: "buildSegments E (text_in options) (mode options) = Inr ss"
    and u: "usedMode (metadata r) = detectUsedMode ss"
    and c: "segmentCount (metadata r) = length ss"
    by blast
  from a b obtain s where "ss = [s]" using buildSegments_explicit by blast
  with u c show "segmentCount (metadata r) = 1" "usedMode (metadata r) \<noteq> Used_none"
    by (simp_all add: detectUsedMode_none_iff)
next
  assume "\<not> js_greater (clampVersion (minVersion options)) (clampVersion (maxVersion options))
        \<and> buildSegments E (text_in options) (mode options) = Inr segments'
        \<and> encodeSegments E segments' (ECL_MAP E (ecl options)) (clampVersion (minVersion options))
             (clampVersion (maxVersion options))
             (case mask options of Mask_auto \<Rightarrow> - 1 | Mask k \<Rightarrow> k) (boostEcl options) = Inr qr"
  then show "\<exists>r. generateQrCode E options = Inr r" using generateQrCode_success by blast
qed

theorem empty_text_segments_witness:
  "(\<exists>r. generateQrCode sampleEngine (sampleOptions '''' Auto) = Inr r
        \<and> segmentCount (metadata r) = 0 \<and> usedMode (metadata r) = Used_none)
   \<and> (\<exists>r. generateQrCode sampleEngine (sampleOptions '''' Byte) = Inr r
        \<and> segmentCount (metadata r) = 1 \<and> usedMode (metadata r) \<noteq> Used_none)
   \<and> buildSegments sampleEngine '''' Alphanumeric = Inr [segmentOf 2 []]
   \<and> length [segmentOf 2 []] = 1"
proof -
  let ?auto = "sampleOptions '''' Auto"
  let ?byte = "sampleOptions '''' Byte"
  let ?qr = "sampleSymbol (ECL_MAP sampleEngine MEDIUM) (- 1)"
  have range: "\<not> js_greater (clampVersion (Num 1)) (clampVersion (Num 40))"
    by (simp add: clampVersion_Num js_greater_def)
  have seg0: "makeSegments sampleEngine [] = Inr []" by (simp add: sampleEngine_def)
  have b_auto: "buildSegments sampleEngine '''' Auto = Inr []"
    by (simp add: buildSegments_def sampleEngine_def)
  have b_byte: "buildSegments sampleEngine '''' Byte = Inr [segmentOf 4 []]"
    by (simp add: buildSegments_def sampleEngine_def single_def utf8_def)
  have b_alnum: "buildSegments sampleEngine '''' Alphanumeric = Inr [segmentOf 2 []]"
    by (simp add: buildSegments_def sampleEngine_def single_def utf8_def)
  have enc: "encodeSegments sampleEngine ss (ECL_MAP sampleEngine MEDIUM) a b (- 1) True = Inr ?qr"
    for ss a b
    by (simp add: sampleEngine_def)
  obtain r0 where "generateQrCode sampleEngine (sampleOptions ''12345'' Numeric) = Inr r0"
    using sample_run_numeric by blast
  from range b_auto enc
    empty_text_segments [of sampleEngine "''''" Alphanumeric "[segmentOf 2 []]" ?auto r0 "[]" ?qr]
  obtain r where r: "generateQrCode sampleEngine ?auto = Inr r"
    by (auto simp: sampleOptions_def)
  from range b_byte enc
    empty_text_segments [of sampleEngine "''''" Alphanumeric "[segmentOf 2 []]" ?byte r0
      "[segmentOf 4 []]" ?qr]
  obtain r' where r': "generateQrCode sampleEngine ?byte = Inr r'"
    by (auto simp: sampleOptions_def)
  from r seg0 b_alnum
    empty_text_segments [of sampleEngine "''''" Alphanumeric "[segmentOf 2 []]" ?auto r "[]" ?qr]
  have 1: "segmentCount (metadata r) = 0 \<and> usedMode (metadata r) = Used_none"
    and 3: "length [segmentOf 2 []] = 1"
    by (simp_all add: sampleOptions_def)
  from r'
    empty_text_segments [of sampleEngine "''''" Alphanumeric "[segmentOf 2 []]" ?byte r' "[]" ?qr]
  have 2: "segmentCount (metadata r') = 1 \<and> usedMode (metadata r') \<noteq> Used_none"
    by (simp add: sampleOptions_def)
  from r r' 1 2 3 b_alnum show ?thesis by blast
qed

text \<open>
  The claim as stated fails for an explicit mode: for the empty text and mode
  \<open>numeric\<close> the list of segments has one (empty) numeric segment, and the run reports
  \<open>segmentCount = 1\<close> and \<open>usedMode = numeric\<close>.
\<close>

theorem empty_text_numeric_counterexample:
  \<open>buildSegments sampleEngine '''' Numeric = Inr [segmentOf 1 []]
   \<and> generateQrCode sampleEngine (sampleOptions '''' Numeric) =
       Inr \<lparr>svg = ''<svg xmlns="http://www.w3.org/2000/svg" viewBox="0 0 7 7" shape-rendering="crispEdges"><rect width="100%" height="100%" fill="#fff"/><path d="M2,2h1v1h-1z M3,3h1v1h-1z M4,4h1v1h-1z" fill="#000"/></svg>'',
            metadata = \<lparr>requestedMode = Numeric, usedMode = Used_numeric, requestedEcl = MEDIUM,
                        actualEcl = Some MEDIUM, version_meta = 1, size_meta = 3, mask_meta = 0,
                        segmentCount = 1, darkModules = 3\<rparr>\<rparr>\<close>
proof -
  have "buildSegments sampleEngine '''' Numeric = Inr [segmentOf 1 []]"
    by (simp add: buildSegments_def sampleEngine_def single_def utf8_def)
  then show ?thesis
    by (simp add: sample_run_empty_numeric toSvg_sample countDarkModules_sample)
qed

section \<open>Determinism\<close>

text \<open>
  The adapter keeps no state between calls and consults neither a clock nor a random
  source; what varies from one call to the next can only be what the engine returns. The
  runs of the pipeline are therefore taken call by call, with an engine that is free to
  answer differently each time, and determinism is proved from the engine's
  repeatability. What the renderer and the counter read of a result object is its size and
  the cells inside the grid.
\<close>

lemma darkCells_cong:
  assumes "size_qr qr = size_qr qr'"
    and "\<And>x y. x < size_qr qr \<Longrightarrow> y < size_qr qr \<Longrightarrow> getModule qr x y = getModule qr' x y"
  shows "darkCells qr = darkCells qr'"
  unfolding darkCells_def assms(1) [symmetric]
  by (rule filter_cong) (auto simp: set_rowMajor assms(2))

lemma toSvg_cong:
  assumes "size_qr qr = size_qr qr'"
    and "\<And>x y. x < size_qr qr \<Longrightarrow> y < size_qr qr \<Longrightarrow> getModule qr x y = getModule qr' x y"
  shows "toSvg qr = toSvg qr'" "countDarkModules qr = countDarkModules qr'"
  using darkCells_cong [OF assms] assms(1)
  by (simp_all add: toSvg_specDocument specDocument_def countDarkModules_darkCells)

lemma buildSegments_run_unique:
  assumes "engineRepeatable R" "buildSegments_run R t m a" "buildSegments_run R t m b"
  shows "a = b"
  using assms(2,3,1)
  by (induction rule: buildSegments_run.induct)
     (auto elim!: buildSegments_run.cases simp: engineRepeatable_def, blast+)

lemma sameSymbol_result:
  assumes "sameSymbol q q'"
  shows "toSvg q = toSvg q'" "countDarkModules q = countDarkModules q'"
    "ordinal (errorCorrectionLevel q) = ordinal (errorCorrectionLevel q')"
    "version q = version q'" "size_qr q = size_qr q'" "mask_qr q = mask_qr q'"
proof -
  from assms have s: "size_qr q = size_qr q'"
    and c: "\<And>x y. x < size_qr q \<Longrightarrow> y < size_qr q \<Longrightarrow> getModule q x y = getModule q' x y"
    by (simp_all add: sameSymbol_def)
  show "toSvg q = toSvg q'" "countDarkModules q = countDarkModules q'"
    using toSvg_cong [OF s c] by simp_all
  show "ordinal (errorCorrectionLevel q) = ordinal (errorCorrectionLevel q')"
    "version q = version q'" "size_qr q = size_qr q'" "mask_qr q = mask_qr q'"
    using assms by (simp_all add: sameSymbol_def)
qed

lemma generateQrCode_run_unique:
  assumes rep: "engineRepeatable R"
    and a: "generateQrCode_run R options r" and b: "generateQrCode_run R options r'"
  shows "r = r'"
  using a
proof (cases rule: generateQrCode_run.cases)
  case run_range
  with b show ?thesis by (auto elim: generateQrCode_run.cases)
next
  case (run_segments_fail e)
  from b show ?thesis
  proof (cases rule: generateQrCode_run.cases)
    case run_range
    with run_segments_fail show ?thesis by simp
  next
    case (run_segments_fail e')
    with \<open>buildSegments_run R (text_in options) (mode options) (Inl e)\<close>
      buildSegments_run_unique [OF rep]
    have "Inl e = (Inl e' :: _ + _ list)" by blast
    with run_segments_fail \<open>r = Inl (EngineError e)\<close> show ?thesis by simp
  next
    case (run_encode_fail segments e')
    with \<open>buildSegments_run R (text_in options) (mode options) (Inl e)\<close>
      buildSegments_run_unique [OF rep]
    have "Inl e = Inr segments" by blast
    then show ?thesis by simp
  next
    case (run_encoded segments qr)
    with \<open>buildSegments_run R (text_in options) (mode options) (Inl e)\<close>
      buildSegments_run_unique [OF rep]
    have "Inl e = Inr segments" by blast
    then show ?thesis by simp
  qed
next
  case A: (run_encode_fail segments e)
  from b show ?thesis
  proof (cases rule: generateQrCode_run.cases)
    case run_range
    with A show ?thesis by simp
  next
    case (run_segments_fail e')
    with A(3) buildSegments_run_unique [OF rep] have "Inr segments = Inl e'" by blast
    then show ?thesis by simp
  next
    case B: (run_encode_fail segments' e')
    with A(3) buildSegments_run_unique [OF rep] have "Inr segments = (Inr segments' :: 'b + _)"
      by blast
    then have "segments = segments'" by simp
    with A(4) B(4) rep have "sameEncoding (Inl e) (Inl e' :: 'b + QrCode)"
      unfolding engineRepeatable_def by blast
    with A(1) B(1) show ?thesis by simp
  next
    case B: (run_encoded segments' qr')
    with A(3) buildSegments_run_unique [OF rep] have "Inr segments = (Inr segments' :: 'b + _)"
      by blast
    then have "segments = segments'" by simp
    with A(4) B(4) rep have "sameEncoding (Inl e) (Inr qr')"
      unfolding engineRepeatable_def by blast
    then show ?thesis by simp
  qed
next
  case A: (run_encoded segments qr)
  from b show ?thesis
  proof (cases rule: generateQrCode_run.cases)
    case run_range
    with A show ?thesis by simp
  next
    case (run_segments_fail e')
    with A(3) buildSegments_run_unique [OF rep] have "Inr segments = Inl e'" by blast
    then show ?thesis by simp
  next
    case B: (run_encode_fail segments' e')
    with A(3) buildSegments_run_unique [OF rep] have "Inr segments = (Inr segments' :: 'b + _)"
      by blast
    then have "segments = segments'" by simp
    with A(4) B(4) rep have "sameEncoding (Inr qr) (Inl e')"
      unfolding engineRepeatable_def by blast
    then show ?thesis by simp
  next
    case B: (run_encoded segments' qr')
    with A(3) buildSegments_run_unique [OF rep] have "Inr segments = (Inr segments' :: 'b + _)"
      by blast
    then have s: "segments = segments'" by simp
    with A(4) B(4) rep have "sameEncoding (Inr qr :: 'b + QrCode) (Inr qr')"
      unfolding engineRepeatable_def by blast
    then have "sameSymbol qr qr'" by simp
    from sameSymbol_result [OF this] s A(1) B(1) show ?thesis by simp
  qed
qed

lemma sameSymbol_refl: "sameSymbol q q"
  by (simp add: sameSymbol_def)

lemma sameSymbol_common: "sameSymbol a q \<Longrightarrow> sameSymbol b q \<Longrightarrow> sameSymbol a b"
  by (simp add: sameSymbol_def)

lemma sameEncoding_refl: "sameEncoding a a"
  by (cases a) (simp_all add: sameSymbol_refl)

lemma callsOf_repeatable: "engineRepeatable (callsOf E)"
  by (simp add: engineRepeatable_def callsOf_def sameEncoding_refl)

lemma buildSegments_run_function:
  "buildSegments_run (callsOf E) t m (buildSegments E t m)"
proof (cases m)
  case Auto
  then show ?thesis
    by (simp add: buildSegments_def) (rule run_auto, simp add: callsOf_def)
next
  case Numeric
  then show ?thesis
    by (simp add: buildSegments_def) (rule run_numeric, simp add: callsOf_def)
next
  case Alphanumeric
  then show ?thesis
    by (simp add: buildSegments_def) (rule run_alphanumeric, simp add: callsOf_def)
next
  case Byte
  then show ?thesis
    by (simp add: buildSegments_def) (rule run_byte, simp add: callsOf_def)
qed

lemma generateQrCode_run_function:
  "generateQrCode_run (callsOf E) options (generateQrCode E options)"
proof (cases "js_greater (clampVersion (minVersion options)) (clampVersion (maxVersion options))")
  case True
  then show ?thesis by (simp add: generateQrCode_def Let_def run_range)
next
  case range: False
  note b = buildSegments_run_function [of E "text_in options" "mode options"]
  show ?thesis
  proof (cases "buildSegments E (text_in options) (mode options)")
    case (Inl e)
    with range b show ?thesis
      by (simp add: generateQrCode_def Let_def run_segments_fail)
  next
    case segs: (Inr segments)
    let ?enc = "encodeSegments E segments (ECL_MAP E (ecl options))
        (clampVersion (minVersion options)) (clampVersion (maxVersion options))
        (case mask options of Mask_auto \<Rightarrow> - 1 | Mask k \<Rightarrow> k) (boostEcl options)"
    have call: "encodeSegments_call (callsOf E) segments (levels (callsOf E) (ecl options))
        (clampVersion (minVersion options)) (clampVersion (maxVersion options))
        (case mask options of Mask_auto \<Rightarrow> - 1 | Mask k \<Rightarrow> k) (boostEcl options) ?enc"
      by (simp add: callsOf_def)
    show ?thesis
    proof (cases ?enc)
      case (Inl e)
      with range segs b call show ?thesis
        by (simp add: generateQrCode_def Let_def) (rule run_encode_fail, simp_all)
    next
      case (Inr qr)
      with range segs b call show ?thesis
        by (simp add: generateQrCode_def Let_def) (rule run_encoded, simp_all)
    qed
  qed
qed

lemma generateQrCode_run_iff:
  "generateQrCode_run (callsOf E) options r \<longleftrightarrow> r = generateQrCode E options"
  using generateQrCode_run_unique [OF callsOf_repeatable _ generateQrCode_run_function]
    generateQrCode_run_function by blast

lemma looseEngine_repeatable: "engineRepeatable looseEngine"
  unfolding engineRepeatable_def looseEngine_def callsOf_def
  by (auto intro: sameSymbol_common)

lemma sample_options_range:
  "\<not> js_greater (clampVersion (minVersion (sampleOptions t m)))
        (clampVersion (maxVersion (sampleOptions t m)))"
  by (simp add: sampleOptions_def clampVersion_Num js_greater_def)

lemma looseEngine_run:
  assumes "sameSymbol qr (sampleSymbol \<lparr>ordinal = 1\<rparr> (- 1))"
  shows "generateQrCode_run looseEngine (sampleOptions ''12345'' Numeric)
     (Inr \<lparr>svg = toSvg qr,
          metadata = \<lparr>requestedMode = Numeric, usedMode = Used_numeric, requestedEcl = MEDIUM,
                      actualEcl = ECL_BY_ORDINAL (ordinal (errorCorrectionLevel qr)),
                      version_meta = version qr, size_meta = size_qr qr, mask_meta = mask_qr qr,
                      segmentCount = 1, darkModules = countDarkModules qr\<rparr>\<rparr>)"
proof -
  let ?o = "sampleOptions ''12345'' Numeric"
  let ?seg = "segmentOf 1 (utf8 ''12345'')"
  have "makeNumeric_call looseEngine ''12345'' (Inr ?seg)"
    by (simp add: looseEngine_def callsOf_def sampleEngine_def isDigit_def)
  then have "buildSegments_run looseEngine ''12345'' Numeric (single (Inr ?seg))"
    by (rule run_numeric)
  then have b: "buildSegments_run looseEngine (text_in ?o) (mode ?o) (Inr [?seg])"
    by (simp add: single_def sampleOptions_def)
  have e: "encodeSegments_call looseEngine [?seg] (levels looseEngine (ecl ?o))
        (clampVersion (minVersion ?o)) (clampVersion (maxVersion ?o))
        (case mask ?o of Mask_auto \<Rightarrow> - 1 | Mask k \<Rightarrow> k) (boostEcl ?o) (Inr qr)"
    using assms
    by (simp add: looseEngine_def callsOf_def sampleOptions_def ECL_MAP_def sampleEngine_def)
  have u: "detectUsedMode [?seg] = Used_numeric"
    by (simp add: detectUsedMode_def set_add_def segmentModeUsed_def MODE_BY_BITS_def
        segmentOf_def)
  from run_encoded [OF sample_options_range b e] u show ?thesis
    by (simp add: sampleOptions_def)
qed

lemma otherSymbol_same: "sameSymbol otherSymbol (sampleSymbol \<lparr>ordinal = 1\<rparr> (- 1))"
  by (auto simp: sameSymbol_def otherSymbol_def sampleSymbol_def)

lemma otherSymbol_differs: "otherSymbol \<noteq> sampleSymbol \<lparr>ordinal = 1\<rparr> (- 1)"
proof
  assume "otherSymbol = sampleSymbol \<lparr>ordinal = 1\<rparr> (- 1)"
  then have "getModule otherSymbol 5 5 = getModule (sampleSymbol \<lparr>ordinal = 1\<rparr> (- 1)) 5 5"
    by simp
  then show False by (simp add: otherSymbol_def sampleSymbol_def)
qed

text \<open>
  C8. Two runs of \<open>generateQrCode\<close> on equal options end alike, in the same error or
  in the same document and the same metadata record, provided the engine is repeatable:
  the adapter adds nothing of its own that could vary, and it reads of the engine's result
  objects only what repeatability fixes. For an engine given by functions the runs are
  exactly the values of \<open>generateQrCode\<close>. Two matrices of the same size that agree on
  every cell inside the grid are rendered to the same document and counted alike; and
  the path \<open>toSvg\<close> accumulates lists the dark cells in row-major order, top to bottom
  and left to right.
\<close>

theorem generateQrCode_deterministic:
  "(engineRepeatable R \<and> options = options'
      \<and> generateQrCode_run R options r \<and> generateQrCode_run R options' r' \<longrightarrow> r = r')
   \<and> (generateQrCode_run (callsOf E) options r \<longleftrightarrow> r = generateQrCode E options)
   \<and> (size_qr qr = size_qr qr'
        \<and> (\<forall>x y. x < size_qr qr \<and> y < size_qr qr \<longrightarrow> getModule qr x y = getModule qr' x y)
        \<longrightarrow> toSvg qr = toSvg qr' \<and> countDarkModules qr = countDarkModules qr')
   \<and> toSvg_y qr 0 [] = concat (map (\<lambda>c. unitSquare c @ '' '') (darkCells qr))
   \<and> sorted_wrt rowMajorBefore (darkCells qr)"
proof (intro conjI impI)
  assume "engineRepeatable R \<and> options = options'
      \<and> generateQrCode_run R options r \<and> generateQrCode_run R options' r'"
  then show "r = r'" using generateQrCode_run_unique by blast
next
  show "generateQrCode_run (callsOf E) options r \<longleftrightarrow> r = generateQrCode E options"
    by (rule generateQrCode_run_iff)
next
  assume a: "size_qr qr = size_qr qr'
        \<and> (\<forall>x y. x < size_qr qr \<and> y < size_qr qr \<longrightarrow> getModule qr x y = getModule qr' x y)"
  then show "toSvg qr = toSvg qr'" by (intro toSvg_cong) simp_all
  from a show "countDarkModules qr = countDarkModules qr'" by (intro toSvg_cong) simp_all
next
  show "toSvg_y qr 0 [] = concat (map (\<lambda>c. unitSquare c @ '' '') (darkCells qr))"
    by (rule toSvg_path)
next
  show "sorted_wrt rowMajorBefore (darkCells qr)" by (rule sorted_darkCells)
qed

theorem generateQrCode_deterministic_witness:
  "engineRepeatable looseEngine
   \<and> otherSymbol \<noteq> sampleSymbol \<lparr>ordinal = 1\<rparr> (- 1)
   \<and> generateQrCode_run looseEngine (sampleOptions ''12345'' Numeric)
        (Inr \<lparr>svg = toSvg (sampleSymbol \<lparr>ordinal = 1\<rparr> (- 1)),
             metadata = \<lparr>requestedMode = Numeric, usedMode = Used_numeric,
                         requestedEcl = MEDIUM, actualEcl = Some MEDIUM, version_meta = 1,
                         size_meta = 3, mask_meta = 0, segmentCount = 1,
                         darkModules = countDarkModules (sampleSymbol \<lparr>ordinal = 1\<rparr> (- 1))\<rparr>\<rparr>)
   \<and> generateQrCode_run looseEngine (sampleOptions ''12345'' Numeric)
        (Inr \<lparr>svg = toSvg otherSymbol,
             metadata = \<lparr>requestedMode = Numeric, usedMode = Used_numeric,
                         requestedEcl = MEDIUM, actualEcl = Some MEDIUM, version_meta = 1,
                         size_meta = 3, mask_meta = 0, segmentCount = 1,
                         darkModules = countDarkModules otherSymbol\<rparr>\<rparr>)
   \<and> toSvg otherSymbol = toSvg (sampleSymbol \<lparr>ordinal = 1\<rparr> (- 1))
   \<and> countDarkModules otherSymbol = countDarkModules (sampleSymbol \<lparr>ordinal = 1\<rparr> (- 1))
   \<and> generateQrCode_run (callsOf sampleEngine) (sampleOptions ''12345'' Numeric)
        (generateQrCode sampleEngine (sampleOptions ''12345'' Numeric))"
proof -
  let ?S = "sampleSymbol \<lparr>ordinal = 1\<rparr> (- 1)"
  let ?o = "sampleOptions ''12345'' Numeric"
  let ?A = "\<lparr>svg = toSvg ?S,
             metadata = \<lparr>requestedMode = Numeric, usedMode = Used_numeric,
                         requestedEcl = MEDIUM, actualEcl = Some MEDIUM, version_meta = 1,
                         size_meta = 3, mask_meta = 0, segmentCount = 1,
                         darkModules = countDarkModules ?S\<rparr>\<rparr>"
  let ?B = "\<lparr>svg = toSvg otherSymbol,
             metadata = \<lparr>requestedMode = Numeric, usedMode = Used_numeric,
                         requestedEcl = MEDIUM, actualEcl = Some MEDIUM, version_meta = 1,
                         size_meta = 3, mask_meta = 0, segmentCount = 1,
                         darkModules = countDarkModules otherSymbol\<rparr>\<rparr>"
  note T = generateQrCode_deterministic [of looseEngine ?o ?o "Inr ?A" "Inr ?B" sampleEngine
      ?S otherSymbol]
  have a: "generateQrCode_run looseEngine ?o (Inr ?A)"
    using looseEngine_run [OF sameSymbol_refl]
    by (simp add: sampleSymbol_def ECL_BY_ORDINAL_def)
  have b: "generateQrCode_run looseEngine ?o (Inr ?B)"
    using looseEngine_run [OF otherSymbol_same]
    by (simp add: otherSymbol_def ECL_BY_ORDINAL_def)
  from T looseEngine_repeatable a b have "(Inr ?A :: engine_error error + _) = Inr ?B" by blast
  then have eq: "toSvg otherSymbol = toSvg ?S" "countDarkModules otherSymbol = countDarkModules ?S"
    by simp_all
  have f: "generateQrCode_run (callsOf sampleEngine) ?o (generateQrCode sampleEngine ?o)"
    using generateQrCode_deterministic [of looseEngine ?o ?o "generateQrCode sampleEngine ?o"
      "Inr ?B" sampleEngine ?S otherSymbol]
    by blast
  from T have "toSvg ?S = toSvg otherSymbol"
    by (auto simp: sampleSymbol_def otherSymbol_def)
  with looseEngine_repeatable otherSymbol_differs a b eq f show ?thesis by blast
qed

section \<open>The size pattern\<close>

subsection \<open>The matcher\<close>

lemma matchHere_singles:
  "matchHere (map (\<lambda>c. Single (p c)) cs @ r) s =
     (if length cs \<le> length s \<and> list_all2 p cs (take (length cs) s)
      then matchHere r (drop (length cs) s) else None)"
proof (induction cs arbitrary: s)
  case Nil
  then show ?case by simp
next
  case (Cons c cs)
  then show ?case by (cases s) auto
qed

lemma backtrack_Some:
  "backtrack capture r s k least = Some x \<Longrightarrow>
     \<exists>j groups rest. least \<le> j \<and> j \<le> k \<and> matchHere r (drop j s) = Some (groups, rest)
        \<and> x = (if capture then take j s # groups else groups, rest)"
proof (induction k)
  case 0
  then show ?case
    by (subst (asm) backtrack.simps) (auto split: if_splits option.splits)
next
  case (Suc k)
  show ?case
  proof (cases "matchHere r (drop (Suc k) s)")
    case None
    with Suc.prems have "backtrack capture r s k least = Some x"
      by (subst (asm) backtrack.simps) (auto split: if_splits)
    from Suc.IH [OF this] obtain j groups rest where
      "least \<le> j" "j \<le> k" "matchHere r (drop j s) = Some (groups, rest)"
      "x = (if capture then take j s # groups else groups, rest)" by blast
    then show ?thesis by (intro exI [of _ j] exI [of _ groups] exI [of _ rest]) simp
  next
    case (Some y)
    obtain groups rest where y: "y = (groups, rest)" by (cases y)
    from Suc.prems Some y have "least \<le> Suc k"
      "x = (if capture then take (Suc k) s # groups else groups, rest)"
      by (subst (asm) backtrack.simps, simp split: if_splits)+
    with Some y show ?thesis
      by (intro exI [of _ "Suc k"] exI [of _ groups] exI [of _ rest]) simp
  qed
qed

lemma backtrack_None:
  "backtrack capture r s k least = None \<Longrightarrow> least \<le> j \<Longrightarrow> j \<le> k \<Longrightarrow>
     matchHere r (drop j s) = None"
proof (induction k)
  case 0
  then show ?case
    by (subst (asm) backtrack.simps) (auto split: if_splits option.splits)
next
  case (Suc k)
  from Suc.prems(1) have here: "least \<le> Suc k \<Longrightarrow> matchHere r (drop (Suc k) s) = None"
    by (subst (asm) backtrack.simps) (auto split: if_splits option.splits)
  show ?case
  proof (cases "j = Suc k")
    case True
    with here Suc.prems show ?thesis by simp
  next
    case False
    with Suc.prems have j: "j \<le> k" by simp
    from Suc.prems here have "backtrack capture r s k least = None"
      by (subst (asm) backtrack.simps) (auto split: if_splits option.splits)
    from Suc.IH [OF this Suc.prems(2) j] show ?thesis .
  qed
qed

lemma take_within_takeWhile:
  "j \<le> length (takeWhile p s) \<Longrightarrow> list_all p (take j s)"
proof -
  assume j: "j \<le> length (takeWhile p s)"
  have "take j s = take j (takeWhile p s @ dropWhile p s)" by simp
  also have "\<dots> = take j (takeWhile p s)" using j by (simp del: takeWhile_dropWhile_id)
  finally have "set (take j s) \<subseteq> set (takeWhile p s)" by (simp add: set_take_subset)
  then show ?thesis by (auto simp: list_all_iff dest: set_takeWhileD)
qed

lemma length_within_takeWhile:
  "list_all p x \<Longrightarrow> length x \<le> length (takeWhile p (x @ s))"
  by (simp add: list_all_iff takeWhile_append2)

lemma single_Some:
  "matchHere (Single p # r) s = Some y \<longleftrightarrow> (\<exists>c cs. s = c # cs \<and> p c \<and> matchHere r cs = Some y)"
  by (cases s) auto

lemma group_Some:
  assumes "matchHere (Group_many1 p # r) s = Some (groups, rest)"
  shows "\<exists>x s' groups'. s = x @ s' \<and> x \<noteq> [] \<and> list_all p x
           \<and> matchHere r s' = Some (groups', rest) \<and> groups = x # groups'"
proof -
  from assms have "backtrack True r s (length (takeWhile p s)) 1 = Some (groups, rest)" by simp
  from backtrack_Some [OF this] obtain j groups' where
    j: "1 \<le> j" "j \<le> length (takeWhile p s)"
    and m: "matchHere r (drop j s) = Some (groups', rest)" and g: "groups = take j s # groups'"
    by auto
  from j have "length s \<ge> 1" using length_takeWhile_le [of p s] by linarith
  with j have ne: "take j s \<noteq> []" by (cases s) auto
  from take_within_takeWhile [OF j(2)] ne m g show ?thesis
    by (intro exI [of _ "take j s"] exI [of _ "drop j s"] exI [of _ groups']) simp
qed

lemma many_Some:
  assumes "matchHere (Many p # r) s = Some (groups, rest)"
  shows "\<exists>x s'. s = x @ s' \<and> list_all p x \<and> matchHere r s' = Some (groups, rest)"
proof -
  from assms have "backtrack False r s (length (takeWhile p s)) 0 = Some (groups, rest)" by simp
  from backtrack_Some [OF this] obtain j where
    j: "j \<le> length (takeWhile p s)" and m: "matchHere r (drop j s) = Some (groups, rest)"
    by auto
  from take_within_takeWhile [OF j] m show ?thesis
    by (intro exI [of _ "take j s"] exI [of _ "drop j s"]) simp
qed

lemma group_exists:
  assumes "x \<noteq> []" "list_all p x" "matchHere r s' \<noteq> None"
  shows "matchHere (Group_many1 p # r) (x @ s') \<noteq> None"
proof
  assume "matchHere (Group_many1 p # r) (x @ s') = None"
  then have "backtrack True r (x @ s') (length (takeWhile p (x @ s'))) 1 = None" by simp
  from backtrack_None [OF this, of "length x"] assms(1) length_within_takeWhile [OF assms(2)]
  have "matchHere r (drop (length x) (x @ s')) = None"
    by (cases x) auto
  with assms(3) show False by simp
qed

lemma many_exists:
  assumes "list_all p x" "matchHere r s' \<noteq> None"
  shows "matchHere (Many p # r) (x @ s') \<noteq> None"
proof
  assume "matchHere (Many p # r) (x @ s') = None"
  then have "backtrack False r (x @ s') (length (takeWhile p (x @ s'))) 0 = None" by simp
  from backtrack_None [OF this, of "length x"] length_within_takeWhile [OF assms(1)]
  have "matchHere r (drop (length x) (x @ s')) = None" by auto
  with assms(2) show False by simp
qed

subsection \<open>Character classes\<close>

lemma quote_only: \<open>ignoreCase CHR ''"'' x \<longleftrightarrow> x = CHR ''"''\<close>
  by (auto simp: ignoreCase_def asciiUpper_def split: option.splits dest!: map_of_SomeD)

lemma space_not_token: "isWhiteSpace c \<Longrightarrow> \<not> digitOrDot c"
  by (auto simp: isWhiteSpace_def digitOrDot_def isDigit_def)

lemma space_not_quote: \<open>isWhiteSpace c \<Longrightarrow> c \<noteq> CHR ''"''\<close>
  by (auto simp: isWhiteSpace_def)

lemma token_not_quote: \<open>digitOrDot c \<Longrightarrow> c \<noteq> CHR ''"''\<close>
  by (auto simp: digitOrDot_def isDigit_def)

lemma ignoreCase_list:
  "list_all2 ignoreCase cs name \<longleftrightarrow> map asciiUpper name = map asciiUpper cs"
proof (induction cs arbitrary: name)
  case Nil
  then show ?case by simp
next
  case (Cons c cs)
  then show ?case by (cases name) (auto simp: ignoreCase_def)
qed

subsection \<open>Splitting a string at a class boundary\<close>

lemma split_after_run:
  assumes "list_all p x" "list_all p x'" "\<not> p c" "\<not> p c'" "x @ c # y = x' @ c' # y'"
  shows "x = x' \<and> c = c' \<and> y = y'"
proof -
  have "takeWhile p (x @ c # y) = x" "takeWhile p (x' @ c' # y') = x'"
    using assms(1-4) by (simp_all add: list_all_iff takeWhile_append2)
  with assms(5) have "x = x'" by simp
  with assms(5) show ?thesis by simp
qed

lemma split_before_run:
  assumes "list_all p x" "list_all p x'" "\<not> p c" "\<not> p c'" "y @ c # x = y' @ c' # x'"
  shows "x = x' \<and> c = c' \<and> y = y'"
proof -
  from assms(5) have "rev (y @ c # x) = rev (y' @ c' # x')" by simp
  then have "rev x @ c # rev y = rev x' @ c' # rev y'" by simp
  moreover have "list_all p (rev x)" "list_all p (rev x')"
    using assms(1,2) by (simp_all add: list_all_iff)
  ultimately have "rev x = rev x' \<and> c = c' \<and> rev y = rev y'"
    using assms(3,4) by (intro split_after_run)
  then show ?thesis by simp
qed

subsection \<open>The dimensions at the end of the attribute\<close>

lemma dimensions_sound:
  assumes \<open>matchHere [Single isWhiteSpace, Group_many1 digitOrDot, Single isWhiteSpace,
                      Group_many1 digitOrDot, Single (ignoreCase CHR ''"'')] u = Some (groups, rest)\<close>
  shows \<open>\<exists>a x1 b x2. u = a # x1 @ b # x2 @ CHR ''"'' # rest \<and> isWhiteSpace a \<and> isWhiteSpace b
            \<and> isToken x1 \<and> isToken x2 \<and> groups = [x1, x2]\<close>
proof -
  from assms obtain a u1 where a: "u = a # u1" "isWhiteSpace a"
    and 1: \<open>matchHere [Group_many1 digitOrDot, Single isWhiteSpace, Group_many1 digitOrDot,
                        Single (ignoreCase CHR ''"'')] u1 = Some (groups, rest)\<close>
    unfolding single_Some by blast
  from group_Some [OF 1] obtain x1 u2 g1 where x1: "u1 = x1 @ u2" "x1 \<noteq> []" "list_all digitOrDot x1"
    and 2: \<open>matchHere [Single isWhiteSpace, Group_many1 digitOrDot,
                        Single (ignoreCase CHR ''"'')] u2 = Some (g1, rest)\<close>
    and g: "groups = x1 # g1"
    by blast
  from 2 obtain b u3 where b: "u2 = b # u3" "isWhiteSpace b"
    and 3: \<open>matchHere [Group_many1 digitOrDot, Single (ignoreCase CHR ''"'')] u3 = Some (g1, rest)\<close>
    unfolding single_Some by blast
  from group_Some [OF 3] obtain x2 u4 g2 where x2: "u3 = x2 @ u4" "x2 \<noteq> []" "list_all digitOrDot x2"
    and 4: \<open>matchHere [Single (ignoreCase CHR ''"'')] u4 = Some (g2, rest)\<close>
    and g1: "g1 = x2 # g2"
    by blast
  from 4 have \<open>u4 = CHR ''"'' # rest\<close> "g2 = []"
    unfolding single_Some by (auto simp: quote_only)
  with a x1 b x2 g g1 show ?thesis by (simp add: isToken_def)
qed

lemma dimensions_exist:
  assumes "isWhiteSpace a" "isWhiteSpace b" "isToken x1" "isToken x2"
  shows \<open>matchHere [Single isWhiteSpace, Group_many1 digitOrDot, Single isWhiteSpace,
                    Group_many1 digitOrDot, Single (ignoreCase CHR ''"'')]
           (a # x1 @ b # x2 @ CHR ''"'' # rest) \<noteq> None\<close>
proof -
  have \<open>matchHere [Single (ignoreCase CHR ''"'')] (CHR ''"'' # rest) \<noteq> None\<close>
    by (simp add: quote_only)
  with assms(4) have \<open>matchHere [Group_many1 digitOrDot, Single (ignoreCase CHR ''"'')]
           (x2 @ CHR ''"'' # rest) \<noteq> None\<close>
    by (intro group_exists) (simp_all add: isToken_def)
  with assms(2) have \<open>matchHere [Single isWhiteSpace, Group_many1 digitOrDot,
           Single (ignoreCase CHR ''"'')] (b # x2 @ CHR ''"'' # rest) \<noteq> None\<close>
    by simp
  with assms(3) have \<open>matchHere [Group_many1 digitOrDot, Single isWhiteSpace, Group_many1 digitOrDot,
           Single (ignoreCase CHR ''"'')] (x1 @ b # x2 @ CHR ''"'' # rest) \<noteq> None\<close>
    by (intro group_exists) (simp_all add: isToken_def)
  with assms(1) show ?thesis by simp
qed

lemma token_without_quote: \<open>isToken t \<Longrightarrow> \<forall>c \<in> set t. c \<noteq> CHR ''"''\<close>
  by (auto simp: isToken_def list_all_iff dest: token_not_quote)

text \<open>Behind a quote-free prefix, the dimensions are determined by the first quote.\<close>

lemma dimensions_unique:
  assumes \<open>junk @ a # x1 @ b # x2 @ CHR ''"'' # rest = junk' @ a' # x1' @ b' # x2' @ CHR ''"'' # rest'\<close>
    and \<open>CHR ''"'' \<notin> set junk\<close> \<open>CHR ''"'' \<notin> set junk'\<close>
    and "isWhiteSpace a" "isWhiteSpace b" "isToken x1" "isToken x2"
    and "isWhiteSpace a'" "isWhiteSpace b'" "isToken x1'" "isToken x2'"
  shows "x1 = x1' \<and> x2 = x2' \<and> rest = rest' \<and> junk = junk'"
proof -
  let ?P = "junk @ a # x1 @ b # x2" and ?P' = "junk' @ a' # x1' @ b' # x2'"
  have nq: \<open>list_all (\<lambda>c. c \<noteq> CHR ''"'') ?P\<close> \<open>list_all (\<lambda>c. c \<noteq> CHR ''"'') ?P'\<close>
  proof -
    have "CHR 0x22 \<notin> set x1" "CHR 0x22 \<notin> set x2" "CHR 0x22 \<notin> set x1'" "CHR 0x22 \<notin> set x2'"
      using assms(6,7,10,11) token_without_quote by blast+
    moreover have "a \<noteq> CHR 0x22" "b \<noteq> CHR 0x22" "a' \<noteq> CHR 0x22" "b' \<noteq> CHR 0x22"
      using assms(4,5,8,9) space_not_quote by blast+
    ultimately show \<open>list_all (\<lambda>c. c \<noteq> CHR ''"'') ?P\<close> \<open>list_all (\<lambda>c. c \<noteq> CHR ''"'') ?P'\<close>
      using assms(2,3) by (auto simp: list_all_iff)
  qed
  from assms(1) have \<open>?P @ CHR ''"'' # rest = ?P' @ CHR ''"'' # rest'\<close> by simp
  with nq have P: "?P = ?P'" and rest: "rest = rest'"
    using split_after_run [of "\<lambda>c. c \<noteq> CHR 0x22" ?P ?P' "CHR 0x22" "CHR 0x22" rest rest']
    by simp_all
  from P have "(junk @ a # x1) @ b # x2 = (junk' @ a' # x1') @ b' # x2'" by simp
  with assms(5,7,9,11) have x2: "x2 = x2'" and Q: "junk @ a # x1 = junk' @ a' # x1'"
    using split_before_run [of digitOrDot x2 x2' b b' "junk @ a # x1" "junk' @ a' # x1'"]
    by (simp_all add: isToken_def space_not_token)
  from Q assms(4,6,8,10) have "x1 = x1'" "junk = junk'"
    using split_before_run [of digitOrDot x1 x1' a a' junk junk']
    by (simp_all add: isToken_def space_not_token)
  with x2 rest show ?thesis by simp
qed

subsection \<open>The size pattern at one place\<close>

lemma matchHere_singles_Some:
  "matchHere (map (\<lambda>c. Single (p c)) cs @ r) s = Some y \<Longrightarrow>
     length cs \<le> length s \<and> list_all2 p cs (take (length cs) s)
       \<and> matchHere r (drop (length cs) s) = Some y"
  by (simp add: matchHere_singles split: if_splits)

lemma viewBox_sound:
  assumes "matchHere viewBoxPattern s = Some (groups, rest)"
  shows \<open>\<exists>name junk a x1 b x2.
           s = name @ junk @ a # x1 @ b # x2 @ CHR ''"'' # rest
           \<and> map asciiUpper name = ''VIEWBOX="'' \<and> CHR ''"'' \<notin> set junk
           \<and> isWhiteSpace a \<and> isWhiteSpace b \<and> isToken x1 \<and> isToken x2 \<and> groups = [x1, x2]\<close>
proof -
  let ?cs = \<open>''viewBox="''\<close>
  let ?tail = \<open>[Single isWhiteSpace, Group_many1 digitOrDot, Single isWhiteSpace,
                Group_many1 digitOrDot, Single (ignoreCase CHR ''"'')]\<close>
  let ?name = "take (length ?cs) s"
  from assms have m: \<open>matchHere (map (\<lambda>c. Single (ignoreCase c)) ?cs
                         @ Many (\<lambda>c. c \<noteq> CHR ''"'') # ?tail) s = Some (groups, rest)\<close>
    by (simp add: viewBoxPattern_def)
  from matchHere_singles_Some [OF m]
  have c: "length ?cs \<le> length s \<and> list_all2 ignoreCase ?cs ?name"
    and rest: \<open>matchHere (Many (\<lambda>c. c \<noteq> CHR ''"'') # ?tail) (drop (length ?cs) s)
      = Some (groups, rest)\<close>
    by blast+
  from many_Some [OF rest] obtain junk u where ju: "drop (length ?cs) s = junk @ u"
    and junk: \<open>list_all (\<lambda>c. c \<noteq> CHR ''"'') junk\<close> and u: "matchHere ?tail u = Some (groups, rest)"
    by blast
  from dimensions_sound [OF u] obtain a x1 b x2 where
    d: \<open>u = a # x1 @ b # x2 @ CHR ''"'' # rest\<close> "isWhiteSpace a" "isWhiteSpace b"
      "isToken x1" "isToken x2" "groups = [x1, x2]"
    by blast
  have "s = ?name @ drop (length ?cs) s" by simp
  with ju d(1) have s: \<open>s = ?name @ junk @ a # x1 @ b # x2 @ CHR ''"'' # rest\<close>
    by simp
  from c have "map asciiUpper ?name = map asciiUpper ?cs"
    unfolding ignoreCase_list by (rule conjunct2)
  also have \<open>map asciiUpper ?cs = ''VIEWBOX="''\<close> by (simp add: asciiUpper_def)
  finally have up: \<open>map asciiUpper ?name = ''VIEWBOX="''\<close> .
  from junk have q: \<open>CHR ''"'' \<notin> set junk\<close> by (auto simp: list_all_iff)
  show ?thesis
    by (rule exI [of _ ?name], rule exI [of _ junk], rule exI [of _ a], rule exI [of _ x1],
        rule exI [of _ b], rule exI [of _ x2]) (use s up q d(2-) in blast)
qed

lemma viewBox_complete:
  assumes \<open>s = name @ junk @ a # x1 @ b # x2 @ CHR ''"'' # rest\<close>
    and \<open>map asciiUpper name = ''VIEWBOX="''\<close> \<open>CHR ''"'' \<notin> set junk\<close>
    and "isWhiteSpace a" "isWhiteSpace b" "isToken x1" "isToken x2"
  shows "matchHere viewBoxPattern s = Some ([x1, x2], rest)"
proof -
  let ?cs = \<open>''viewBox="''\<close>
  let ?tail = \<open>[Single isWhiteSpace, Group_many1 digitOrDot, Single isWhiteSpace,
                Group_many1 digitOrDot, Single (ignoreCase CHR ''"'')]\<close>
  let ?u = \<open>a # x1 @ b # x2 @ CHR ''"'' # rest\<close>
  from assms(2) have "length (map asciiUpper name) = 9" by simp
  then have len: "length name = length ?cs" by simp
  have name: "list_all2 ignoreCase ?cs name"
    unfolding ignoreCase_list using assms(2) by (simp add: asciiUpper_def)
  have junk: \<open>list_all (\<lambda>c. c \<noteq> CHR ''"'') junk\<close> using assms(3) by (auto simp: list_all_iff)
  have "matchHere ?tail ?u \<noteq> None" using assms(4-7) by (rule dimensions_exist)
  with junk have \<open>matchHere (Many (\<lambda>c. c \<noteq> CHR ''"'') # ?tail) (junk @ ?u) \<noteq> None\<close>
    by (rule many_exists)
  then obtain groups' rest' where
    m: \<open>matchHere (Many (\<lambda>c. c \<noteq> CHR ''"'') # ?tail) (junk @ ?u) = Some (groups', rest')\<close>
    by auto
  from many_Some [OF m] obtain junk' u' where ju: "junk @ ?u = junk' @ u'"
    and junk': \<open>list_all (\<lambda>c. c \<noteq> CHR ''"'') junk'\<close> and u': "matchHere ?tail u' = Some (groups', rest')"
    by blast
  from dimensions_sound [OF u'] obtain a' x1' b' x2' where
    d: \<open>u' = a' # x1' @ b' # x2' @ CHR ''"'' # rest'\<close> "isWhiteSpace a'" "isWhiteSpace b'"
      "isToken x1'" "isToken x2'" "groups' = [x1', x2']"
    by blast
  from junk' have q': \<open>CHR ''"'' \<notin> set junk'\<close> by (auto simp: list_all_iff)
  from ju d(1) have \<open>junk @ a # x1 @ b # x2 @ CHR ''"'' # rest
      = junk' @ a' # x1' @ b' # x2' @ CHR ''"'' # rest'\<close> by simp
  from dimensions_unique [OF this assms(3) q' assms(4-7) d(2-5)]
  have "x1 = x1'" "x2 = x2'" "rest = rest'" by simp_all
  with m d(6) have \<open>matchHere (Many (\<lambda>c. c \<noteq> CHR ''"'') # ?tail) (junk @ ?u) = Some ([x1, x2], rest)\<close>
    by simp
  moreover have "take (length ?cs) s = name" "drop (length ?cs) s = junk @ ?u"
    using assms(1) len by simp_all
  moreover have "length ?cs \<le> length s" using assms(1) len by simp
  ultimately have \<open>matchHere (map (\<lambda>c. Single (ignoreCase c)) ?cs
                         @ Many (\<lambda>c. c \<noteq> CHR ''"'') # ?tail) s = Some ([x1, x2], rest)\<close>
    unfolding matchHere_singles using name by simp
  then show ?thesis by (simp add: viewBoxPattern_def)
qed




lemma viewBoxHere_iff:
  "viewBoxHere s t1 t2 \<longleftrightarrow> (\<exists>rest. matchHere viewBoxPattern s = Some ([t1, t2], rest))"
proof
  assume "viewBoxHere s t1 t2"
  then show "\<exists>rest. matchHere viewBoxPattern s = Some ([t1, t2], rest)"
    unfolding viewBoxHere_def
  proof (elim exE conjE)
    fix name junk a b rest
    assume \<open>s = name @ junk @ a # t1 @ b # t2 @ CHR ''"'' # rest\<close>
      \<open>map asciiUpper name = ''VIEWBOX="''\<close> \<open>CHR ''"'' \<notin> set junk\<close>
      "isWhiteSpace a" "isWhiteSpace b" "isToken t1" "isToken t2"
    then have "matchHere viewBoxPattern s = Some ([t1, t2], rest)" by (rule viewBox_complete)
    then show ?thesis ..
  qed
next
  assume "\<exists>rest. matchHere viewBoxPattern s = Some ([t1, t2], rest)"
  then obtain rest where "matchHere viewBoxPattern s = Some ([t1, t2], rest)" ..
  from viewBox_sound [OF this] show "viewBoxHere s t1 t2"
    unfolding viewBoxHere_def
  proof (elim exE conjE)
    fix name junk a x1 b x2
    assume \<open>s = name @ junk @ a # x1 @ b # x2 @ CHR ''"'' # rest\<close>
      \<open>map asciiUpper name = ''VIEWBOX="''\<close> \<open>CHR ''"'' \<notin> set junk\<close>
      "isWhiteSpace a" "isWhiteSpace b" "isToken x1" "isToken x2" "[t1, t2] = [x1, x2]"
    then show \<open>\<exists>name junk a b rest.
        s = name @ junk @ a # t1 @ b # t2 @ CHR ''"'' # rest
        \<and> map asciiUpper name = ''VIEWBOX="''
        \<and> CHR ''"'' \<notin> set junk
        \<and> isWhiteSpace a \<and> isWhiteSpace b \<and> isToken t1 \<and> isToken t2\<close>
      by (intro exI [of _ name] exI [of _ junk] exI [of _ a] exI [of _ b] exI [of _ rest]) simp
  qed
qed


lemma viewBox_groups:
  assumes "matchHere viewBoxPattern s = Some (groups, rest)"
  shows "\<exists>t1 t2. groups = [t1, t2]"
proof -
  from viewBox_sound [OF assms] obtain x1 x2 where "groups = [x1, x2]" by blast
  then show ?thesis by blast
qed



lemma no_viewBoxHere_iff:
  "(\<forall>t1 t2. \<not> viewBoxHere s t1 t2) \<longleftrightarrow> matchHere viewBoxPattern s = None"
proof (cases "matchHere viewBoxPattern s")
  case None
  then show ?thesis by (simp add: viewBoxHere_iff)
next
  case (Some y)
  obtain groups rest where "y = (groups, rest)" by (cases y)
  with Some viewBox_groups [of s groups rest] show ?thesis
    by (auto simp: viewBoxHere_iff)
qed

subsection \<open>The leftmost match\<close>

lemma js_match_None_iff: "js_match re s = None \<longleftrightarrow> (\<forall>i. matchHere re (drop i s) = None)"
proof (induction s)
  case Nil
  then show ?case by (subst js_match.simps) (auto split: option.splits)
next
  case (Cons c cs)
  have "(\<forall>i. matchHere re (drop i (c # cs)) = None) \<longleftrightarrow>
          matchHere re (c # cs) = None \<and> (\<forall>i. matchHere re (drop i cs) = None)"
  proof
    assume a: "\<forall>i. matchHere re (drop i (c # cs)) = None"
    from a [rule_format, of 0] have "matchHere re (c # cs) = None" by simp
    moreover have "matchHere re (drop i cs) = None" for i
      using a [rule_format, of "Suc i"] by simp
    ultimately show "matchHere re (c # cs) = None \<and> (\<forall>i. matchHere re (drop i cs) = None)"
      by blast
  next
    assume a: "matchHere re (c # cs) = None \<and> (\<forall>i. matchHere re (drop i cs) = None)"
    show "\<forall>i. matchHere re (drop i (c # cs)) = None"
    proof
      fix i show "matchHere re (drop i (c # cs)) = None" using a by (cases i) simp_all
    qed
  qed
  with Cons show ?case by (subst js_match.simps) (auto split: option.splits)
qed

lemma js_match_first:
  assumes "matchHere re (drop i s) = Some (groups, rest)"
    and "\<forall>j < i. matchHere re (drop j s) = None"
  shows "\<exists>whole. js_match re s = Some (whole # groups)"
  using assms
proof (induction s arbitrary: i)
  case Nil
  then show ?case by (subst js_match.simps) simp
next
  case (Cons c cs)
  show ?case
  proof (cases i)
    case 0
    with Cons.prems show ?thesis by (subst js_match.simps) simp
  next
    case (Suc k)
    with Cons.prems have here: "matchHere re (c # cs) = None" by fastforce
    from Suc Cons.prems have "matchHere re (drop k cs) = Some (groups, rest)" by simp
    moreover have "\<forall>j < k. matchHere re (drop j cs) = None"
    proof (intro allI impI)
      fix j assume "j < k"
      with Suc Cons.prems(2) [rule_format, of "Suc j"] show "matchHere re (drop j cs) = None"
        by simp
    qed
    ultimately obtain whole where "js_match re cs = Some (whole # groups)"
      using Cons.IH by blast
    with here show ?thesis by (subst js_match.simps) simp
  qed
qed

lemma js_match_Some:
  assumes "js_match re s = Some m"
  shows "\<exists>i whole groups rest. m = whole # groups \<and> matchHere re (drop i s) = Some (groups, rest)
           \<and> (\<forall>j < i. matchHere re (drop j s) = None)"
  using assms
proof (induction s)
  case Nil
  then obtain groups rest where "matchHere re [] = Some (groups, rest)" "m = [] # groups"
    by (subst (asm) js_match.simps) (auto split: option.splits)
  then show ?case by (intro exI [of _ 0] exI [of _ "[]"] exI [of _ groups] exI [of _ rest]) simp
next
  case (Cons c cs)
  show ?case
  proof (cases "matchHere re (c # cs)")
    case None
    with Cons.prems have "js_match re cs = Some m" by (subst (asm) js_match.simps) simp
    from Cons.IH [OF this] obtain i whole groups rest where
      i: "m = whole # groups" "matchHere re (drop i cs) = Some (groups, rest)"
        "\<forall>j < i. matchHere re (drop j cs) = None"
      by blast
    have "\<forall>j < Suc i. matchHere re (drop j (c # cs)) = None"
    proof (intro allI impI)
      fix j assume "j < Suc i"
      with None i(3) show "matchHere re (drop j (c # cs)) = None" by (cases j) simp_all
    qed
    with i(1,2) show ?thesis
      by (intro exI [of _ "Suc i"] exI [of _ whole] exI [of _ groups] exI [of _ rest]) simp
  next
    case (Some y)
    obtain groups rest where y: "y = (groups, rest)" by (cases y)
    with Some Cons.prems have "m = take (length (c # cs) - length rest) (c # cs) # groups"
      by (subst (asm) js_match.simps) simp
    with Some y show ?thesis
      by (intro exI [of _ 0] exI [of _ "take (length (c # cs) - length rest) (c # cs)"]
            exI [of _ groups] exI [of _ rest]) simp
  qed
qed

subsection \<open>\<open>getSvgSize\<close>\<close>

lemma js_match_noViewBox: "noViewBox doc \<longleftrightarrow> js_match viewBoxPattern doc = None"
  unfolding noViewBox_def js_match_None_iff no_viewBoxHere_iff [symmetric] by blast

lemma js_match_firstViewBox:
  "firstViewBox doc t1 t2 \<longleftrightarrow> (\<exists>whole. js_match viewBoxPattern doc = Some [whole, t1, t2])"
proof
  assume "firstViewBox doc t1 t2"
  then obtain i where i: "viewBoxHere (drop i doc) t1 t2"
    and before: "\<forall>j u1 u2. j < i \<longrightarrow> \<not> viewBoxHere (drop j doc) u1 u2"
    unfolding firstViewBox_def by blast
  from i obtain rest where "matchHere viewBoxPattern (drop i doc) = Some ([t1, t2], rest)"
    unfolding viewBoxHere_iff by blast
  moreover from before have "\<forall>j < i. matchHere viewBoxPattern (drop j doc) = None"
    using no_viewBoxHere_iff by blast
  ultimately show "\<exists>whole. js_match viewBoxPattern doc = Some [whole, t1, t2]"
    by (rule js_match_first)
next
  assume "\<exists>whole. js_match viewBoxPattern doc = Some [whole, t1, t2]"
  then obtain whole where "js_match viewBoxPattern doc = Some [whole, t1, t2]" ..
  from js_match_Some [OF this] obtain i rest where
    m: "matchHere viewBoxPattern (drop i doc) = Some ([t1, t2], rest)"
    and before: "\<forall>j < i. matchHere viewBoxPattern (drop j doc) = None"
    by auto
  from m have "viewBoxHere (drop i doc) t1 t2" unfolding viewBoxHere_iff by blast
  moreover from before have "\<forall>j u1 u2. j < i \<longrightarrow> \<not> viewBoxHere (drop j doc) u1 u2"
    using no_viewBoxHere_iff by blast
  ultimately show "firstViewBox doc t1 t2" unfolding firstViewBox_def by blast
qed

lemma viewBox_cases: "noViewBox doc \<or> (\<exists>t1 t2. firstViewBox doc t1 t2)"
proof (cases "js_match viewBoxPattern doc")
  case None
  then show ?thesis by (simp add: js_match_noViewBox)
next
  case (Some m)
  from js_match_Some [OF Some] obtain i whole groups rest where
    "m = whole # groups" "matchHere viewBoxPattern (drop i doc) = Some (groups, rest)"
    by blast
  with viewBox_groups obtain t1 t2 where "m = [whole, t1, t2]" by blast
  with Some show ?thesis unfolding js_match_firstViewBox by blast
qed

lemma getSvgSize_noViewBox: "noViewBox doc \<Longrightarrow> getSvgSize doc = Num 512"
  by (simp add: js_match_noViewBox getSvgSize_def DEFAULT_PNG_SIZE_def)

lemma getSvgSize_firstViewBox:
  assumes "firstViewBox doc t1 t2"
  shows "getSvgSize doc =
           (if isFinite (Math_max (Number_of t1) (Number_of t2))
               \<and> js_less (Num 0) (Math_max (Number_of t1) (Number_of t2))
            then Math_max (Number_of t1) (Number_of t2) else Num 512)"
proof -
  from assms obtain whole where "js_match viewBoxPattern doc = Some [whole, t1, t2]"
    unfolding js_match_firstViewBox ..
  then show ?thesis
    by (simp add: getSvgSize_def DEFAULT_PNG_SIZE_def js_greater_def Let_def)
qed

lemma getSvgSize_usable: "isFinite (getSvgSize doc) \<and> js_less (Num 0) (getSvgSize doc)"
  using viewBox_cases [of doc]
  by (auto simp: getSvgSize_noViewBox getSvgSize_firstViewBox)

subsection \<open>Concrete documents\<close>

lemma Math_max_Num: "Math_max (Num w) (Num h) = Num (max w h)"
  by (simp add: Math_max_def max_def)

lemma Number_of_25: "Number_of ''25'' = Num 25"
  by code_simp

lemma Number_of_0: "Number_of ''0'' = Num 0"
  by code_simp

lemma Number_of_30: "Number_of ''30'' = Num 30"
  by code_simp

lemma Number_of_20: "Number_of ''20'' = Num 20"
  by code_simp

lemma times_25_16: "js_times (Num 25) (Num 16) = Num 400"
  by code_simp

lemma canvasSize_25:
  assumes "firstViewBox doc ''25'' ''25''"
  shows "canvasSize doc = Num 400"
proof -
  from getSvgSize_firstViewBox [OF assms] have "getSvgSize doc = Num 25"
    by (simp add: Number_of_25 Math_max_Num)
  then show ?thesis
    unfolding canvasSize_def PNG_SCALE_def by (simp only: times_25_16) (simp add: floor_eq_iff)
qed

lemma none_plain: \<open>noViewBox ''<svg></svg>''\<close>
  unfolding js_match_noViewBox by code_simp

lemma first_zero: \<open>firstViewBox ''<svg viewBox="0 0 0 0">'' ''0'' ''0''\<close>
  unfolding js_match_firstViewBox
  by (rule exI [of _ \<open>''viewBox="0 0 0 0"''\<close>]) code_simp

lemma first_30_20: \<open>firstViewBox ''<svg viewBox="5 5 30 20">'' ''30'' ''20''\<close>
  unfolding js_match_firstViewBox
  by (rule exI [of _ \<open>''viewBox="5 5 30 20"''\<close>]) code_simp

lemma toSvg_blank:
  "toSvg \<lparr>version = 1, size_qr = 21, mask_qr = 0, errorCorrectionLevel = \<lparr>ordinal = 0\<rparr>,
          getModule = (\<lambda>x y. False)\<rparr> = sampleDocument"
  by (simp add: toSvg_specDocument specDocument_def darkCells_def numberToString.simps
      digitChar_def sampleDocument_def)

lemma first_sample: "firstViewBox sampleDocument ''25'' ''25''"
  unfolding js_match_firstViewBox
  by (rule exI [of _ \<open>''viewBox="0 0 25 25"''\<close>]) code_simp

section \<open>Export: the object URL, the canvas and the size\<close>

lemma saveSvgAsPng_result:
  "fst (saveSvgAsPng env doc filename b) = exportOutcome env doc"
  by (simp add: saveSvgAsPng_def saveSvgAsPng_try_def createObjectURL_def exportOutcome_def
      Let_def split: prod.splits)

lemma saveSvgAsPng_events:
  "events (snd (saveSvgAsPng env doc filename b)) =
     events b @ [CreateObjectURL (nextUrl b) doc]
       @ (case exportOutcome env doc of
            Inl e \<Rightarrow> [] | Inr u \<Rightarrow> [Download filename (canvasSize doc) (canvasSize doc)])
       @ [RevokeObjectURL (nextUrl b)]"
  by (simp add: saveSvgAsPng_def saveSvgAsPng_try_def createObjectURL_def revokeObjectURL_def
      exportOutcome_def Let_def split: prod.splits)

lemma saveSvgAsPng_objectUrls:
  "objectUrls (snd (saveSvgAsPng env doc filename b)) = removeAll (nextUrl b) (objectUrls b)"
  by (simp add: saveSvgAsPng_def saveSvgAsPng_try_def createObjectURL_def revokeObjectURL_def
      Let_def split: prod.splits)

text \<open>
  C9. On every run of \<open>saveSvgAsPng\<close>, whether the save succeeds, the image fails to
  decode or no drawing context is to be had, the browser sees the object URL created and
  then released: the events of the call begin with the creation and end with the release,
  the release occurs exactly once among them, and the URL is no longer registered when the
  call completes.
\<close>

theorem saveSvgAsPng_releases_url:
  "events (snd (saveSvgAsPng env doc filename b)) =
     events b @ [CreateObjectURL (nextUrl b) doc]
       @ (case exportOutcome env doc of
            Inl e \<Rightarrow> [] | Inr u \<Rightarrow> [Download filename (canvasSize doc) (canvasSize doc)])
       @ [RevokeObjectURL (nextUrl b)]
   \<and> length (filter (\<lambda>e. e = RevokeObjectURL (nextUrl b))
        (drop (length (events b)) (events (snd (saveSvgAsPng env doc filename b))))) = 1
   \<and> nextUrl b \<notin> set (objectUrls (snd (saveSvgAsPng env doc filename b)))
   \<and> fst (saveSvgAsPng env doc filename b) = exportOutcome env doc"
  by (simp add: saveSvgAsPng_events saveSvgAsPng_objectUrls saveSvgAsPng_result split: sum.splits)

theorem saveSvgAsPng_releases_url_witness:
  "events (snd (saveSvgAsPng \<lparr>imageDecodes = (\<lambda>d. False), contextAvailable = True\<rparr>
                  sampleDocument ''qr-code.png'' \<lparr>objectUrls = [4], nextUrl = 7, events = []\<rparr>)) =
       [CreateObjectURL 7 sampleDocument, RevokeObjectURL 7]
   \<and> fst (saveSvgAsPng \<lparr>imageDecodes = (\<lambda>d. False), contextAvailable = True\<rparr>
                  sampleDocument ''qr-code.png'' \<lparr>objectUrls = [4], nextUrl = 7, events = []\<rparr>) =
       Inl ImageDecodeFailed
   \<and> events (snd (saveSvgAsPng \<lparr>imageDecodes = (\<lambda>d. True), contextAvailable = False\<rparr>
                  sampleDocument ''qr-code.png'' \<lparr>objectUrls = [4], nextUrl = 7, events = []\<rparr>)) =
       [CreateObjectURL 7 sampleDocument, RevokeObjectURL 7]
   \<and> fst (saveSvgAsPng \<lparr>imageDecodes = (\<lambda>d. True), contextAvailable = False\<rparr>
                  sampleDocument ''qr-code.png'' \<lparr>objectUrls = [4], nextUrl = 7, events = []\<rparr>) =
       Inl RenderUnavailable
   \<and> objectUrls (snd (saveSvgAsPng \<lparr>imageDecodes = (\<lambda>d. True), contextAvailable = True\<rparr>
                  sampleDocument ''qr-code.png'' \<lparr>objectUrls = [4], nextUrl = 7, events = []\<rparr>)) = [4]"
proof -
  let ?b = "\<lparr>objectUrls = [4], nextUrl = 7, events = []\<rparr>"
  note T = saveSvgAsPng_releases_url [of _ sampleDocument "''qr-code.png''" ?b]
  have d: "exportOutcome \<lparr>imageDecodes = (\<lambda>d. False), contextAvailable = True\<rparr> sampleDocument
             = Inl ImageDecodeFailed"
    and c: "exportOutcome \<lparr>imageDecodes = (\<lambda>d. True), contextAvailable = False\<rparr> sampleDocument
             = Inl RenderUnavailable"
    by (simp_all add: exportOutcome_def)
  have o: "objectUrls (snd (saveSvgAsPng \<lparr>imageDecodes = (\<lambda>d. True), contextAvailable = True\<rparr>
                  sampleDocument ''qr-code.png'' ?b)) = [4]"
    by (simp add: saveSvgAsPng_objectUrls)
  from T [of "\<lparr>imageDecodes = (\<lambda>d. False), contextAvailable = True\<rparr>"]
    T [of "\<lparr>imageDecodes = (\<lambda>d. True), contextAvailable = False\<rparr>"] d c o
  show ?thesis by simp
qed

text \<open>
  C7. For every document the intrinsic size is read off the declared view box: without
  a view box of the pattern's form it is 512; with one, it is the larger of the two
  declared numbers if that is finite and positive, and 512 otherwise. One of the two
  cases always applies, so the size is always finite and positive. The canvas side is
  \<open>Math.round(size * 16)\<close>, and a successful export downloads a canvas of that width
  and height. A document that declares \<open>25 25\<close> gives a canvas of 400 by 400.
\<close>

theorem canvasSize_from_viewBox:
  "(noViewBox doc \<longrightarrow> getSvgSize doc = Num 512)
   \<and> (firstViewBox doc t1 t2 \<longrightarrow>
        getSvgSize doc =
          (if isFinite (Math_max (Number_of t1) (Number_of t2))
              \<and> js_less (Num 0) (Math_max (Number_of t1) (Number_of t2))
           then Math_max (Number_of t1) (Number_of t2) else Num 512))
   \<and> (noViewBox doc \<or> (\<exists>u1 u2. firstViewBox doc u1 u2))
   \<and> isFinite (getSvgSize doc) \<and> js_less (Num 0) (getSvgSize doc)
   \<and> canvasSize doc = Math_round (js_times (getSvgSize doc) (Num 16))
   \<and> (exportOutcome env doc = Inr () \<longrightarrow>
        events (snd (saveSvgAsPng env doc filename b)) =
          events b @ [CreateObjectURL (nextUrl b) doc,
                      Download filename (canvasSize doc) (canvasSize doc),
                      RevokeObjectURL (nextUrl b)])
   \<and> (firstViewBox doc ''25'' ''25'' \<longrightarrow> canvasSize doc = Num 400)"
proof (intro conjI impI)
  assume "noViewBox doc"
  then show "getSvgSize doc = Num 512" by (rule getSvgSize_noViewBox)
next
  assume "firstViewBox doc t1 t2"
  then show "getSvgSize doc =
          (if isFinite (Math_max (Number_of t1) (Number_of t2))
              \<and> js_less (Num 0) (Math_max (Number_of t1) (Number_of t2))
           then Math_max (Number_of t1) (Number_of t2) else Num 512)"
    by (rule getSvgSize_firstViewBox)
next
  show "noViewBox doc \<or> (\<exists>u1 u2. firstViewBox doc u1 u2)" by (rule viewBox_cases)
next
  show "isFinite (getSvgSize doc)" "js_less (Num 0) (getSvgSize doc)"
    using getSvgSize_usable [of doc] by simp_all
next
  show "canvasSize doc = Math_round (js_times (getSvgSize doc) (Num 16))"
    by (simp add: canvasSize_def PNG_SCALE_def)
next
  assume "exportOutcome env doc = Inr ()"
  then show "events (snd (saveSvgAsPng env doc filename b)) =
          events b @ [CreateObjectURL (nextUrl b) doc,
                      Download filename (canvasSize doc) (canvasSize doc),
                      RevokeObjectURL (nextUrl b)]"
    by (simp add: saveSvgAsPng_events)
next
  assume "firstViewBox doc ''25'' ''25''"
  then show "canvasSize doc = Num 400" by (rule canvasSize_25)
qed

theorem canvasSize_from_viewBox_witness:
  \<open>getSvgSize ''<svg></svg>'' = Num 512
   \<and> getSvgSize sampleDocument = Num 25
   \<and> canvasSize sampleDocument = Num 400
   \<and> events (snd (saveSvgAsPng \<lparr>imageDecodes = (\<lambda>d. True), contextAvailable = True\<rparr>
                  sampleDocument ''qr-code.png'' \<lparr>objectUrls = [], nextUrl = 0, events = []\<rparr>)) =
       [CreateObjectURL 0 sampleDocument, Download ''qr-code.png'' (Num 400) (Num 400),
        RevokeObjectURL 0]\<close>
proof -
  let ?env = "\<lparr>imageDecodes = (\<lambda>d. True), contextAvailable = True\<rparr>"
  let ?b = "\<lparr>objectUrls = [], nextUrl = 0, events = []\<rparr>"
  note T = canvasSize_from_viewBox [of _ _ _ ?env "''qr-code.png''" ?b]
  have 1: \<open>getSvgSize ''<svg></svg>'' = Num 512\<close>
    using T [of \<open>''<svg></svg>''\<close> "''25''" "''25''"] none_plain by blast
  have ok: "exportOutcome ?env sampleDocument = Inr ()" by (simp add: exportOutcome_def)
  note S = T [of sampleDocument "''25''" "''25''"]
  from S first_sample have 2: "getSvgSize sampleDocument = Num 25"
    by (simp add: Number_of_25 Math_max_Num)
  from S first_sample have 3: "canvasSize sampleDocument = Num 400" by blast
  from S ok have "events (snd (saveSvgAsPng ?env sampleDocument ''qr-code.png'' ?b)) =
      events ?b @ [CreateObjectURL (nextUrl ?b) sampleDocument,
         Download ''qr-code.png'' (canvasSize sampleDocument) (canvasSize sampleDocument),
         RevokeObjectURL (nextUrl ?b)]" by blast
  with 3 have 4: "events (snd (saveSvgAsPng ?env sampleDocument ''qr-code.png'' ?b)) =
       [CreateObjectURL 0 sampleDocument, Download ''qr-code.png'' (Num 400) (Num 400),
        RevokeObjectURL 0]" by simp
  from 1 2 3 4 show ?thesis by blast
qed

text \<open>
  C10 (as amended). When the first view box of a document ends in two tokens that read
  as the numbers \<open>w\<close> and \<open>h\<close>, and the larger of them is positive, \<open>getSvgSize\<close>
  returns that larger number, whatever stands before the two tokens in the attribute and
  whether or not they are equal. So \<open>viewBox="5 5 30 20"\<close> gives 30.
\<close>

theorem getSvgSize_max:
  "firstViewBox doc t1 t2 \<and> Number_of t1 = Num w \<and> Number_of t2 = Num h \<and> 0 < max w h
     \<longrightarrow> getSvgSize doc = Num (max w h)"
proof
  assume a: "firstViewBox doc t1 t2 \<and> Number_of t1 = Num w \<and> Number_of t2 = Num h \<and> 0 < max w h"
  then have "firstViewBox doc t1 t2" by simp
  from getSvgSize_firstViewBox [OF this] a show "getSvgSize doc = Num (max w h)"
    by (simp add: Math_max_Num)
qed

theorem getSvgSize_max_witness:
  \<open>firstViewBox ''<svg viewBox="5 5 30 20">'' ''30'' ''20''
   \<and> Number_of ''30'' = Num 30 \<and> Number_of ''20'' = Num 20
   \<and> getSvgSize ''<svg viewBox="5 5 30 20">'' = Num 30\<close>
  using getSvgSize_max [of \<open>''<svg viewBox="5 5 30 20">''\<close> "''30''" "''20''" 30 20]
    first_30_20 Number_of_30 Number_of_20
  by simp

text \<open>
  Without the proviso the claim fails: \<open>viewBox="0 0 0 0"\<close> ends in two numeric
  tokens whose maximum is 0, and \<open>getSvgSize\<close> returns 512.
\<close>

theorem getSvgSize_zero_counterexample:
  \<open>firstViewBox ''<svg viewBox="0 0 0 0">'' ''0'' ''0''
   \<and> Number_of ''0'' = Num 0
   \<and> getSvgSize ''<svg viewBox="0 0 0 0">'' = Num 512
   \<and> Num 512 \<noteq> Num (max 0 0)\<close>
proof -
  from getSvgSize_firstViewBox [OF first_zero]
  have \<open>getSvgSize ''<svg viewBox="0 0 0 0">'' = Num 512\<close>
    by (simp add: Number_of_0 Math_max_Num)
  with first_zero Number_of_0 show ?thesis by simp
qed

section \<open>From the renderer to the exporter\<close>

subsection \<open>Integers are read and multiplied exactly\<close>

lemma roundHalfEven_of_int: "roundHalfEven (of_int m) = m"
  by (simp add: roundHalfEven_def)

lemma toDouble_nat:
  assumes "k < 2 ^ 53"
  shows "toDouble (of_nat k) = Num (of_nat k)"
proof (cases "k = 0")
  case True
  then show ?thesis by (simp add: toDouble_def)
next
  case False
  then have pos: "0 < k" by simp
  define L where "L = floorlog 2 k"
  have L1: "1 \<le> L" using pos floorlog_eq_zero_iff [of 2 k] by (simp add: L_def Suc_le_eq)
  have L53: "L \<le> 53" unfolding L_def using assms by (intro floorlog_leI) simp_all
  have one: "(1::rat) \<le> of_nat k" using pos by simp
  have fl: "floorLog2 (of_nat k) = int L - 1"
    using one by (simp add: floorLog2_def L_def)
  have e: "max (floorLog2 (of_nat k)) (- 1022) = int L - 1" using fl L1 by simp
  have ulp: "pow2 (int L - 1 - 52) = 1 / 2 ^ (53 - L)"
  proof (cases "L = 53")
    case True
    then show ?thesis by (simp add: pow2_def)
  next
    case False
    with L53 have "L < 53" by simp
    then have "nat (53 - int L) = 53 - L" by simp
    with \<open>L < 53\<close> show ?thesis by (simp add: pow2_def)
  qed
  have "(of_nat k :: rat) / (1 / 2 ^ (53 - L)) = of_int (int (k * 2 ^ (53 - L)))" by simp
  then have r: "roundHalfEven (of_nat k / (1 / 2 ^ (53 - L))) = int (k * 2 ^ (53 - L))"
    by (simp only: roundHalfEven_of_int)
  have scaled: "of_int (int (k * 2 ^ (53 - L))) * (1 / 2 ^ (53 - L)) = (of_nat k :: rat)" by simp
  have "(of_nat k :: rat) < 2 ^ 53" using assms
    by (metis of_nat_less_iff of_nat_numeral of_nat_power)
  also have "\<dots> \<le> 2 ^ 1024" by (rule power_increasing) simp_all
  finally have small: "\<not> pow2 1024 \<le> (of_nat k :: rat)" by (simp add: pow2_def)
  have nz: "(of_nat k :: rat) \<noteq> 0" using pos by simp
  have ab: "\<bar>of_nat k :: rat\<bar> = of_nat k" by simp
  show ?thesis
    unfolding toDouble_def Let_def ab e ulp r scaled using nz small by simp
qed

lemma Math_round_nat: "Math_round (Num (of_nat n)) = Num (of_nat n)"
proof -
  have "\<lfloor>(of_nat n :: rat) + 1 / 2\<rfloor> = int n" by (simp add: floor_eq_iff)
  then show ?thesis by simp
qed

subsection \<open>Reading back what was printed\<close>

lemma numberToString_nonempty: "numberToString n \<noteq> []"
  by (subst numberToString.simps) simp

lemma digitChar_digit: "d < 10 \<Longrightarrow> isDigit (digitChar d) \<and> digitValue (digitChar d) = d"
proof -
  assume "d < 10"
  then have "d \<in> {0, 1, 2, 3, 4, 5, 6, 7, 8, 9}" by auto
  then show ?thesis by (auto simp: isDigit_def digitValue_def digitChar_def)
qed

lemma decimalValue_snoc: "decimalValue (ds @ [c]) = 10 * decimalValue ds + digitValue c"
  by (simp add: decimalValue_def)

lemma numberToString_read:
  "list_all isDigit (numberToString n) \<and> decimalValue (numberToString n) = n"
proof (induction n rule: numberToString.induct)
  case (1 n)
  show ?case
  proof (cases "n < 10")
    case True
    then show ?thesis
      using digitChar_digit [of n]
      by (subst (1 2) numberToString.simps) (simp add: decimalValue_def)
  next
    case False
    with "1.IH" digitChar_digit [of "n mod 10"] show ?thesis
      by (subst (1 2) numberToString.simps) (simp add: decimalValue_snoc)
  qed
qed

lemma Number_of_numberToString:
  assumes "n < 2 ^ 53"
  shows "Number_of (numberToString n) = Num (of_nat n)"
proof -
  have all: "list_all isDigit (numberToString n)" and v: "decimalValue (numberToString n) = n"
    using numberToString_read by blast+
  from all have tw: "takeWhile isDigit (numberToString n) = numberToString n"
    and dw: "dropWhile isDigit (numberToString n) = []"
    by (simp_all add: list_all_iff)
  show ?thesis
    unfolding Number_of_def Let_def tw dw v
    using numberToString_nonempty [of n] toDouble_nat [OF assms] by simp
qed

lemma numberToString_token: "isToken (numberToString n)"
  using numberToString_read [of n] numberToString_nonempty [of n]
  by (auto simp: isToken_def digitOrDot_def list_all_iff)

subsection \<open>The size pattern on a rendered document\<close>

lemma no_match_first:
  "\<not> ignoreCase CHR ''v'' c \<Longrightarrow> matchHere viewBoxPattern (c # cs) = None"
  by (simp add: viewBoxPattern_def)

lemma no_match_second:
  "\<not> ignoreCase CHR ''i'' d \<Longrightarrow> matchHere viewBoxPattern (c # d # cs) = None"
  by (simp add: viewBoxPattern_def)

lemma js_match_skip_first:
  "\<not> ignoreCase CHR ''v'' c \<Longrightarrow>
     js_match viewBoxPattern (c # cs) = js_match viewBoxPattern cs"
  by (subst js_match.simps) (simp add: no_match_first)

lemma js_match_skip_second:
  "\<not> ignoreCase CHR ''i'' d \<Longrightarrow>
     js_match viewBoxPattern (c # d # cs) = js_match viewBoxPattern (d # cs)"
  by (subst js_match.simps) (simp add: no_match_second)

lemma js_match_here:
  "matchHere re s = Some (groups, rest) \<Longrightarrow>
     js_match re s = Some (take (length s - length rest) s # groups)"
  by (subst js_match.simps) simp

lemma js_match_rendered:
  \<open>js_match viewBoxPattern (''<svg xmlns="http://www.w3.org/2000/svg" '' @ body) =
     js_match viewBoxPattern body\<close>
  by (simp add: js_match_skip_first js_match_skip_second ignoreCase_def asciiUpper_def)

lemma getSvgSize_toSvg:
  assumes "size_qr qr + 4 < 2 ^ 53"
  shows "getSvgSize (toSvg qr) = Num (of_nat (size_qr qr + 4))"
proof -
  let ?t = "numberToString (size_qr qr + 4)"
  let ?rest = \<open>'' shape-rendering="crispEdges"><rect width="100%" height="100%" fill="#fff"/><path d="''
       @ spaceJoined (map unitSquare (darkCells qr)) @ ''" fill="#000"/></svg>''\<close>
  let ?body = \<open>''viewBox="'' @ ''0 0'' @ CHR '' '' # ?t @ CHR '' '' # ?t @ CHR ''"'' # ?rest\<close>
  have doc: \<open>toSvg qr = ''<svg xmlns="http://www.w3.org/2000/svg" '' @ ?body\<close>
    by (simp add: toSvg_specDocument specDocument_def)
  have "matchHere viewBoxPattern ?body = Some ([?t, ?t], ?rest)"
    by (rule viewBox_complete [where name = \<open>''viewBox="''\<close> and junk = "''0 0''"
          and a = "CHR '' ''" and b = "CHR '' ''"])
       (simp_all add: numberToString_token isWhiteSpace_def asciiUpper_def)
  from js_match_here [OF this] obtain whole where
    "js_match viewBoxPattern ?body = Some [whole, ?t, ?t]" by blast
  then have "js_match viewBoxPattern (toSvg qr) = Some [whole, ?t, ?t]"
    unfolding doc js_match_rendered .
  moreover have "0 < size_qr qr + 4" by simp
  ultimately show ?thesis
    using Number_of_numberToString [OF assms]
    by (simp add: getSvgSize_def Math_max_Num js_greater_def Let_def del: of_nat_add)
qed

lemma canvasSize_toSvg:
  assumes "size_qr qr + 4 < 2 ^ 49"
  shows "canvasSize (toSvg qr) = Num (of_nat (16 * (size_qr qr + 4)))"
proof -
  let ?n = "size_qr qr + 4"
  from assms have "?n < 2 ^ 53" by (rule less_trans) simp
  then have size: "getSvgSize (toSvg qr) = Num (of_nat ?n)" by (rule getSvgSize_toSvg)
  from assms have "16 * ?n < 2 ^ 53" by simp
  then have "toDouble (of_nat (16 * ?n)) = Num (of_nat (16 * ?n))" by (rule toDouble_nat)
  moreover have "(of_nat ?n :: rat) * 16 = of_nat (16 * ?n)" by simp
  ultimately have "js_times (Num (of_nat ?n)) (Num 16) = Num (of_nat (16 * ?n))"
    by (simp only: js_times.simps)
  then show ?thesis
    unfolding canvasSize_def PNG_SCALE_def size by (simp only: Math_round_nat)
qed

text \<open>
  The exporter reads back what the renderer wrote: for a symbol of side \<open>size\<close>
  the intrinsic size of the rendered document is \<open>size + 4\<close> and the canvas is
  \<open>16 * (size + 4)\<close> pixels wide and high (for every size the arithmetic of the host
  is exact on, far beyond the 177 of the largest symbol).
\<close>

theorem export_of_rendered:
  "size_qr qr + 4 < 2 ^ 49 \<longrightarrow>
     getSvgSize (toSvg qr) = Num (of_nat (size_qr qr + 4))
     \<and> canvasSize (toSvg qr) = Num (of_nat (16 * (size_qr qr + 4)))"
proof
  assume a: "size_qr qr + 4 < 2 ^ 49"
  then have "size_qr qr + 4 < 2 ^ 53" by (rule less_trans) simp
  with a show "getSvgSize (toSvg qr) = Num (of_nat (size_qr qr + 4))
     \<and> canvasSize (toSvg qr) = Num (of_nat (16 * (size_qr qr + 4)))"
    using getSvgSize_toSvg canvasSize_toSvg by blast
qed

theorem export_of_rendered_witness:
  "getSvgSize (toSvg (sampleSymbol \<lparr>ordinal = 1\<rparr> 0)) = Num 7
   \<and> canvasSize (toSvg (sampleSymbol \<lparr>ordinal = 1\<rparr> 0)) = Num 112"
  using export_of_rendered [of "sampleSymbol \<lparr>ordinal = 1\<rparr> 0"]
  by (simp add: sampleSymbol_def)

section \<open>Further properties of the pipeline\<close>

text \<open>
  Once the range check has passed, an error of the engine ends the pipeline as that
  error: one thrown while the segments are built (such as a numeric segment refused for
  a text with a character that is no digit) and one thrown by the encoder.
\<close>

theorem engine_errors_propagate:
  "\<not> js_greater (clampVersion (minVersion options)) (clampVersion (maxVersion options))
     \<longrightarrow> (buildSegments E (text_in options) (mode options) = Inl e
            \<longrightarrow> generateQrCode E options = Inl (EngineError e))
         \<and> (buildSegments E (text_in options) (mode options) = Inr segments
            \<and> encodeSegments E segments (ECL_MAP E (ecl options))
                 (clampVersion (minVersion options)) (clampVersion (maxVersion options))
                 (case mask options of Mask_auto \<Rightarrow> - 1 | Mask k \<Rightarrow> k) (boostEcl options) = Inl e
            \<longrightarrow> generateQrCode E options = Inl (EngineError e))
         \<and> (mode options = Numeric \<and> makeNumeric E (text_in options) = Inl e
            \<longrightarrow> generateQrCode E options = Inl (EngineError e))"
  by (simp add: generateQrCode_def Let_def buildSegments_def single_def)

theorem engine_errors_propagate_witness:
  "generateQrCode sampleEngine (sampleOptions ''12a'' Numeric) = Inl (EngineError UnsupportedCharacters)"
proof -
  have "\<not> js_greater (clampVersion (Num 1)) (clampVersion (Num 40))"
    by (simp add: clampVersion_Num js_greater_def)
  moreover have "makeNumeric sampleEngine ''12a'' = Inl UnsupportedCharacters"
    by (simp add: sampleEngine_def isDigit_def)
  ultimately show ?thesis
    using engine_errors_propagate [of "sampleOptions ''12a'' Numeric" sampleEngine
      UnsupportedCharacters "[]"]
    by (simp add: sampleOptions_def)
qed

lemma sample_run_mask:
  "generateQrCode sampleEngine ((sampleOptions ''12345'' Numeric)\<lparr>mask := Mask 3, ecl := HIGH\<rparr>) =
     Inr \<lparr>svg = toSvg (sampleSymbol \<lparr>ordinal = 3\<rparr> 3),
          metadata = \<lparr>requestedMode = Numeric, usedMode = Used_numeric, requestedEcl = HIGH,
                      actualEcl = Some HIGH, version_meta = 1, size_meta = 3, mask_meta = 3,
                      segmentCount = 1,
                      darkModules = countDarkModules (sampleSymbol \<lparr>ordinal = 3\<rparr> 3)\<rparr>\<rparr>"
  by (simp add: generateQrCode_def sampleOptions_def sampleEngine_def clampVersion_def
      Math_min_def Math_max_def js_or_def js_greater_def buildSegments_def single_def
      isDigit_def ECL_MAP_def ECL_BY_ORDINAL_def detectUsedMode_def set_add_def
      segmentModeUsed_def MODE_BY_BITS_def segmentOf_def sampleSymbol_def)

text \<open>
  The metadata of a successful run copies the requested mode and level from the
  options and everything else from what the engine returned for the clamped versions, the
  mapped level and the mask (\<open>-1\<close> for \<open>auto\<close>): version, size, mask, the level by
  its ordinal, the number of segments, their mode, and the number of dark modules.
\<close>

theorem metadata_projection:
  "generateQrCode E options = Inr r \<longrightarrow>
     requestedMode (metadata r) = mode options
     \<and> requestedEcl (metadata r) = ecl options
     \<and> (\<exists>segments qr.
           buildSegments E (text_in options) (mode options) = Inr segments
           \<and> encodeSegments E segments (ECL_MAP E (ecl options))
                (clampVersion (minVersion options)) (clampVersion (maxVersion options))
                (case mask options of Mask_auto \<Rightarrow> - 1 | Mask k \<Rightarrow> k) (boostEcl options) = Inr qr
           \<and> svg r = toSvg qr
           \<and> usedMode (metadata r) = detectUsedMode segments
           \<and> actualEcl (metadata r) = ECL_BY_ORDINAL (ordinal (errorCorrectionLevel qr))
           \<and> version_meta (metadata r) = version qr
           \<and> size_meta (metadata r) = size_qr qr
           \<and> mask_meta (metadata r) = mask_qr qr
           \<and> segmentCount (metadata r) = length segments
           \<and> darkModules (metadata r) = countDarkModules qr)"
proof
  assume run: "generateQrCode E options = Inr r"
  let ?minV = "clampVersion (minVersion options)"
  let ?maxV = "clampVersion (maxVersion options)"
  from run have range: "\<not> js_greater ?minV ?maxV"
    by (auto simp: generateQrCode_def Let_def)
  show "requestedMode (metadata r) = mode options
     \<and> requestedEcl (metadata r) = ecl options
     \<and> (\<exists>segments qr.
           buildSegments E (text_in options) (mode options) = Inr segments
           \<and> encodeSegments E segments (ECL_MAP E (ecl options)) ?minV ?maxV
                (case mask options of Mask_auto \<Rightarrow> - 1 | Mask k \<Rightarrow> k) (boostEcl options) = Inr qr
           \<and> svg r = toSvg qr
           \<and> usedMode (metadata r) = detectUsedMode segments
           \<and> actualEcl (metadata r) = ECL_BY_ORDINAL (ordinal (errorCorrectionLevel qr))
           \<and> version_meta (metadata r) = version qr
           \<and> size_meta (metadata r) = size_qr qr
           \<and> mask_meta (metadata r) = mask_qr qr
           \<and> segmentCount (metadata r) = length segments
           \<and> darkModules (metadata r) = countDarkModules qr)"
  proof (cases "buildSegments E (text_in options) (mode options)")
    case (Inl e)
    with run range show ?thesis by (simp add: generateQrCode_def Let_def)
  next
    case segs: (Inr segments)
    show ?thesis
    proof (cases "encodeSegments E segments (ECL_MAP E (ecl options)) ?minV ?maxV
       (case mask options of Mask_auto \<Rightarrow> - 1 | Mask k \<Rightarrow> k) (boostEcl options)")
      case (Inl e)
      with run range segs show ?thesis by (simp add: generateQrCode_def Let_def)
    next
      case (Inr qr)
      with run range segs have "r = \<lparr>svg = toSvg qr,
         metadata = \<lparr>requestedMode = mode options, usedMode = detectUsedMode segments,
           requestedEcl = ecl options,
           actualEcl = ECL_BY_ORDINAL (ordinal (errorCorrectionLevel qr)),
           version_meta = version qr, size_meta = size_qr qr, mask_meta = mask_qr qr,
           segmentCount = length segments, darkModules = countDarkModules qr\<rparr>\<rparr>"
        by (simp add: generateQrCode_def Let_def)
      with segs Inr show ?thesis by simp
    qed
  qed
qed

theorem metadata_projection_witness:
  "\<exists>r. generateQrCode sampleEngine ((sampleOptions ''12345'' Numeric)\<lparr>mask := Mask 3, ecl := HIGH\<rparr>)
          = Inr r
       \<and> requestedMode (metadata r) = Numeric \<and> requestedEcl (metadata r) = HIGH
       \<and> mask_meta (metadata r) = 3 \<and> actualEcl (metadata r) = Some HIGH"
proof -
  let ?o = "(sampleOptions ''12345'' Numeric)\<lparr>mask := Mask 3, ecl := HIGH\<rparr>"
  obtain r where r: "generateQrCode sampleEngine ?o = Inr r"
    and m: "mask_meta (metadata r) = 3" "actualEcl (metadata r) = Some HIGH"
    using sample_run_mask by force
  from metadata_projection [of sampleEngine ?o r] r
  have "requestedMode (metadata r) = Numeric" "requestedEcl (metadata r) = HIGH"
    by (simp_all add: sampleOptions_def)
  with r m show ?thesis by blast
qed

text \<open>
  What the size pattern matches: \<open>match\<close> returns null exactly for a document
  without a view box of the pattern's form, and otherwise an array of three strings whose
  second and third are the two tokens of the first such view box.
\<close>

theorem viewBox_pattern_meaning:
  "(js_match viewBoxPattern doc = None \<longleftrightarrow> noViewBox doc)
   \<and> ((\<exists>whole. js_match viewBoxPattern doc = Some [whole, t1, t2]) \<longleftrightarrow> firstViewBox doc t1 t2)
   \<and> (js_match viewBoxPattern doc = Some m \<longrightarrow> length m = 3)"
proof (intro conjI impI)
  show "js_match viewBoxPattern doc = None \<longleftrightarrow> noViewBox doc"
    by (simp add: js_match_noViewBox)
next
  show "(\<exists>whole. js_match viewBoxPattern doc = Some [whole, t1, t2]) \<longleftrightarrow> firstViewBox doc t1 t2"
    by (simp add: js_match_firstViewBox)
next
  assume "js_match viewBoxPattern doc = Some m"
  from js_match_Some [OF this] obtain i whole groups rest where
    "m = whole # groups" "matchHere viewBoxPattern (drop i doc) = Some (groups, rest)"
    by blast
  with viewBox_groups obtain u1 u2 where "m = [whole, u1, u2]" by blast
  then show "length m = 3" by simp
qed

theorem viewBox_pattern_meaning_witness:
  \<open>js_match viewBoxPattern ''<svg viewBox="5 5 30 20">'' = Some [''viewBox="5 5 30 20"'', ''30'', ''20'']
   \<and> firstViewBox ''<svg viewBox="5 5 30 20">'' ''30'' ''20''
   \<and> js_match viewBoxPattern ''<svg viewBox="30 20">'' = None
   \<and> noViewBox ''<svg viewBox="30 20">''\<close>
proof -
  have 1: \<open>js_match viewBoxPattern ''<svg viewBox="5 5 30 20">'' = Some [''viewBox="5 5 30 20"'', ''30'', ''20'']\<close>
    by code_simp
  have 2: \<open>js_match viewBoxPattern ''<svg viewBox="30 20">'' = None\<close> by code_simp
  from 1 viewBox_pattern_meaning [of \<open>''<svg viewBox="5 5 30 20">''\<close> "''30''" "''20''"]
  have 3: \<open>firstViewBox ''<svg viewBox="5 5 30 20">'' ''30'' ''20''\<close> by blast
  from 2 viewBox_pattern_meaning [of \<open>''<svg viewBox="30 20">''\<close> "''30''" "''20''"]
  have 4: \<open>noViewBox ''<svg viewBox="30 20">''\<close> by blast
  from 1 2 3 4 show ?thesis by blast
qed

end
